theory Spec2Isabelle
  imports Complex_Main "HOL-Library.Sublist"
begin


section \<open>Errors\<close>

text \<open>
  Exceptions of the Python program are values: a function that can raise returns
  \<open>error + 'a\<close>, with \<open>Inl\<close> for the exception. Tensor entries are real numbers: the
  rounding of float32 arithmetic is not part of the model.
\<close>

datatype error =
    NameError string
  | IndexError
  | InvalidArgumentError
  | ValueError

section \<open>SARPostProcessor\<close>

subsection \<open>String helpers of the decoding table\<close>

text \<open>
  Python's \<open>str.find\<close>, which \<open>tf.strings.split\<close> follows: the index of the first
  occurrence of \<open>sep\<close> in the text.
\<close>

fun find_str :: "string \<Rightarrow> string \<Rightarrow> nat option" where
  "find_str sep [] = (if sep = [] then Some 0 else None)"
| "find_str sep (c # cs) =
     (if prefix sep (c # cs) then Some 0 else map_option Suc (find_str sep cs))"

lemma find_str_bound: "find_str sep s = Some p \<Longrightarrow> p + length sep \<le> length s"
proof (induction s arbitrary: p)
  case Nil
  then show ?case by (simp split: if_splits)
next
  case (Cons c cs)
  show ?case
  proof (cases "prefix sep (c # cs)")
    case True
    then have "length sep \<le> length (c # cs)" by (rule prefix_length_le)
    with True Cons.prems show ?thesis by simp
  next
    case False
    with Cons.prems obtain q where "find_str sep cs = Some q" "p = Suc q" by auto
    with Cons.IH show ?thesis by fastforce
  qed
qed

text \<open>
  \<open>tf.strings.split(text, sep)\<close> for a non-empty separator: cut at the first occurrence,
  go on after it, and end with what is left (so the result is never empty). The program
  only ever splits at the constant \<open><eos>\<close>; an empty separator (whitespace splitting in
  TensorFlow) is not modelled and leaves the text whole.
\<close>

function split_sep :: "string \<Rightarrow> string \<Rightarrow> string list" where
  "split_sep sep s =
     (if sep = [] then [s]
      else (case find_str sep s of
              None \<Rightarrow> [s]
            | Some p \<Rightarrow> take p s # split_sep sep (drop (p + length sep) s)))"
  by pat_completeness auto
termination
proof (relation "measure (\<lambda>(sep, s). length s)")
  show "wf (measure (\<lambda>(sep, s). length s))" by simp
next
  fix sep s :: string and p :: nat
  assume "sep \<noteq> []" and "find_str sep s = Some p"
  then have "p + length sep \<le> length s" and "0 < length sep"
    using find_str_bound by auto
  then have "length s - (p + length sep) < length s" by arith
  then show "((sep, drop (p + length sep) s), (sep, s)) \<in> measure (\<lambda>(sep, s). length s)"
    by simp
qed

declare split_sep.simps [simp del]

text \<open>
  \<open>tf.sparse.to_dense(ragged.to_sparse(), default_value)\<close> on the ragged result of a
  split: every row is padded with the default up to the longest row.
\<close>

definition to_dense :: "string \<Rightarrow> string list list \<Rightarrow> string list list" where
  "to_dense dflt rows =
     (let w = foldr max (map length rows) 0
      in map (\<lambda>r. r @ replicate (w - length r) dflt) rows)"

text \<open>
  \<open>x[..., 0]\<close> on the dense matrix: the first column. TensorFlow refuses index 0 on an
  axis of size 0, which is the width of the dense matrix when there is no row at all.
\<close>

definition first_column :: "string list list \<Rightarrow> error + string list" where
  "first_column rows =
     (if foldr max (map length rows) 0 = 0 then Inl InvalidArgumentError
      else Inr (map (\<lambda>r. r ! 0) rows))"

text \<open>Python's slice \<open>xs[:k]\<close>, for \<open>k\<close> of either sign.\<close>

definition slice_to :: "int \<Rightarrow> 'a list \<Rightarrow> 'a list" where
  "slice_to k xs = (if 0 \<le> k then take (nat k) xs else take (length xs - nat (- k)) xs)"

text \<open>Running a fallible function over a list stops at the first exception.\<close>

fun map_err :: "('a \<Rightarrow> error + 'b) \<Rightarrow> 'a list \<Rightarrow> error + 'b list" where
  "map_err f [] = Inr []"
| "map_err f (x # xs) =
     (case f x of
        Inl e \<Rightarrow> Inl e
      | Inr y \<Rightarrow> (case map_err f xs of Inl e \<Rightarrow> Inl e | Inr ys \<Rightarrow> Inr (y # ys)))"

subsection \<open>The decoding table\<close>

text \<open>
  Modelled from the spec: \<open>RecognitionPostProcessor.__init__\<close> (module \<open>..core\<close>, not
  among the sources) builds the table \<open>self._embedding\<close> that \<open>__call__\<close> reads. The spec
  describes it as "the vocabulary table plus an EOS marker string": one entry per
  vocabulary character, in order, and the marker \<open><eos>\<close> last, at index \<open>V\<close>.
\<close>

definition eos_marker :: string where
  "eos_marker = ''<eos>''"

record SARPostProcessor =
  pp_vocab :: string
  pp_embedding :: "string list"

definition RecognitionPostProcessor_init :: "string \<Rightarrow> SARPostProcessor" where
  "RecognitionPostProcessor_init vocab =
     \<lparr>pp_vocab = vocab, pp_embedding = map (\<lambda>c. [c]) vocab @ [eos_marker]\<rparr>"

text \<open>
  \<open>tf.nn.embedding_lookup(embedding, ids)\<close>: a gather on the first axis; an id outside
  the table is refused (the CPU kernel's behaviour).
\<close>

definition embedding_lookup :: "string list \<Rightarrow> nat \<Rightarrow> error + string" where
  "embedding_lookup emb i = (if i < length emb then Inr (emb ! i) else Inl InvalidArgumentError)"

text \<open>\<open>tf.strings.reduce_join(embedding_lookup(embedding, ids), axis=-1)\<close> for one sequence.\<close>

definition join_ids :: "string list \<Rightarrow> nat list \<Rightarrow> error + string" where
  "join_ids emb ids =
     (case map_err (embedding_lookup emb) ids of Inl e \<Rightarrow> Inl e | Inr ss \<Rightarrow> Inr (concat ss))"

subsection \<open>Decoder output and post-processor result\<close>

text \<open>
  The decoder returns \<open>(ids, scores)\<close> in one of two layouts. The greedy path gives ids
  \<open>[N, L]\<close> and logits \<open>[N, L, V+1]\<close>; the beam path gives ids \<open>[N, B, L]\<close> and sequence
  log-probabilities \<open>[N, B]\<close>.
\<close>

datatype decoded =
    Greedy_out "nat list list" "real list list list"
  | Beam_out "nat list list list" "real list list"

datatype post_out =
    Preds1 (predictions1: "string list") (probabilities1: "real list")
  | Preds2 (predictions2: "string list list") (probabilities2: "real list list")

definition softmax :: "real list \<Rightarrow> real list" where
  "softmax xs = map (\<lambda>x. exp x / sum_list (map exp xs)) xs"

text \<open>\<open>tf.gather(probs, ids, axis=-1, batch_dims=2)\<close> at one timestep: the entry of the chosen id.\<close>

definition gather1 :: "real list \<Rightarrow> nat \<Rightarrow> error + real" where
  "gather1 ps i = (if i < length ps then Inr (ps ! i) else Inl InvalidArgumentError)"

fun zip_err :: "'a list \<Rightarrow> 'b list \<Rightarrow> error + ('a \<times> 'b) list" where
  "zip_err [] [] = Inr []"
| "zip_err (x # xs) (y # ys) =
     (case zip_err xs ys of Inl e \<Rightarrow> Inl e | Inr zs \<Rightarrow> Inr ((x, y) # zs))"
| "zip_err _ _ = Inl InvalidArgumentError"

text \<open>
  The confidence of one greedy sequence: softmax per timestep, the probability of the
  chosen id, and the geometric mean over the timesteps. (Over zero timesteps TensorFlow's
  mean is NaN; the decoder always produces at least one.)
\<close>

definition seq_prob :: "real list list \<Rightarrow> nat list \<Rightarrow> error + real" where
  "seq_prob scores ids =
     (case zip_err scores ids of
        Inl e \<Rightarrow> Inl e
      | Inr zs \<Rightarrow>
          (case map_err (\<lambda>(s, i). gather1 (softmax s) i) zs of
             Inl e \<Rightarrow> Inl e
           | Inr ps \<Rightarrow> Inr (exp (sum_list (map ln ps) / real (length ps)))))"

text \<open>
  The strings of a batch of sequences: join, split at the marker, densify, first column.
\<close>

definition decode_strings :: "string list \<Rightarrow> nat list list \<Rightarrow> error + string list" where
  "decode_strings emb idss =
     (case map_err (join_ids emb) idss of
        Inl e \<Rightarrow> Inl e
      | Inr joined \<Rightarrow> first_column (to_dense ''not valid'' (map (split_sep eos_marker) joined)))"

text \<open>
  \<open>chop_rows ns xs\<close> cuts a flat list into rows of the given lengths: the way back from
  the flattened \<open>[N * B]\<close> strings to \<open>[N, B]\<close>.
\<close>

fun chop_rows :: "nat list \<Rightarrow> 'a list \<Rightarrow> 'a list list" where
  "chop_rows [] xs = []"
| "chop_rows (n # ns) xs = take n xs # chop_rows ns (drop n xs)"

text \<open>
  \<open>SARPostProcessor.__call__(ids, scores, top_sequences)\<close>. \<open>if top_sequences:\<close> is
  Python truthiness: \<open>None\<close> and \<open>0\<close> take the else branch. With per-timestep logits and a
  truthy \<open>top_sequences\<close> the last slice \<open>[:, :top_sequences]\<close> indexes a rank-1 tensor
  with two indices; with beam scores and no \<open>top_sequences\<close> the gather asks for two batch
  dimensions of a rank-2 tensor. TensorFlow refuses both.
\<close>

definition truthy_int :: "int option \<Rightarrow> bool" where
  "truthy_int k = (case k of None \<Rightarrow> False | Some n \<Rightarrow> n \<noteq> 0)"

fun SARPostProcessor_call :: "SARPostProcessor \<Rightarrow> decoded \<Rightarrow> int option \<Rightarrow> error + post_out" where
  "SARPostProcessor_call pp (Greedy_out ids scores) top_sequences =
     (if truthy_int top_sequences then Inl InvalidArgumentError
      else (case zip_err scores ids of
              Inl e \<Rightarrow> Inl e
            | Inr zs \<Rightarrow>
                (case map_err (\<lambda>(s, i). seq_prob s i) zs of
                   Inl e \<Rightarrow> Inl e
                 | Inr probs \<Rightarrow>
                     (case decode_strings (pp_embedding pp) ids of
                        Inl e \<Rightarrow> Inl e
                      | Inr strs \<Rightarrow> Inr (Preds1 strs probs)))))"
| "SARPostProcessor_call pp (Beam_out ids scores) top_sequences =
     (if \<not> truthy_int top_sequences then Inl InvalidArgumentError
      else
        (let k = the top_sequences;
             probs = map (\<lambda>row. slice_to k (map exp row)) scores
         in (case decode_strings (pp_embedding pp) (concat ids) of
               Inl e \<Rightarrow> Inl e
             | Inr strs \<Rightarrow>
                 Inr (Preds2 (map (slice_to k) (chop_rows (map length ids) strs)) probs))))"

subsection \<open>What the spec says of the decoded string\<close>

text \<open>
  The spec's words, for comparison with the code: every id is mapped to its vocabulary
  character, or to the EOS marker; the characters of a sequence are concatenated; the
  string returned is the prefix before the first occurrence of the marker (the whole
  string when the marker does not occur).
\<close>

definition id_chars :: "string \<Rightarrow> nat list \<Rightarrow> string" where
  "id_chars vocab ids =
     concat (map (\<lambda>i. if i < length vocab then [vocab ! i] else eos_marker) ids)"

definition first_eos_at :: "nat \<Rightarrow> string \<Rightarrow> bool" where
  "first_eos_at k s \<longleftrightarrow>
     prefix eos_marker (drop k s) \<and> (\<forall>j<k. \<not> prefix eos_marker (drop j s))"

definition truncated_at_first_eos :: "string \<Rightarrow> string \<Rightarrow> bool" where
  "truncated_at_first_eos joined out \<longleftrightarrow>
     (\<forall>k. first_eos_at k joined \<longrightarrow> out = take k joined) \<and>
     ((\<forall>k. \<not> prefix eos_marker (drop k joined)) \<longrightarrow> out = joined)"

text \<open>All strings of a post-processor result, whatever its layout.\<close>

definition all_predictions :: "post_out \<Rightarrow> string set" where
  "all_predictions out = (case out of Preds1 p _ \<Rightarrow> set p | Preds2 p _ \<Rightarrow> set (concat p))"

section \<open>Layers\<close>

text \<open>
  The Keras layers the decoder is built from. A layer's hyper-parameters are the
  constructor's arguments; its weights are indexed functions (a kernel entry for every
  pair of indices), so that a layer built for \<open>units\<close> outputs always returns \<open>units\<close>
  values. The \<open>**kwargs\<close> the program forwards to a layer holds the \<open>training\<close> flag
  (\<open>None\<close> when it is not passed); \<open>Dense\<close>, \<open>Conv2D\<close> and an \<open>LSTMCell\<close> without dropout
  compute the same with or without it.
\<close>

type_synonym vec = "real list"
type_synonym kwargs = "bool option"

subsection \<open>Dense\<close>

record dense =
  d_units :: nat
  d_use_bias :: bool
  d_kernel :: "nat \<Rightarrow> nat \<Rightarrow> real"
  d_bias :: "nat \<Rightarrow> real"

definition dot_kernel :: "vec \<Rightarrow> (nat \<Rightarrow> real) \<Rightarrow> real" where
  "dot_kernel x k = (\<Sum>i\<leftarrow>[0..<length x]. x ! i * k i)"

definition dense_call :: "dense \<Rightarrow> vec \<Rightarrow> kwargs \<Rightarrow> vec" where
  "dense_call d x kw =
     map (\<lambda>j. dot_kernel x (\<lambda>i. d_kernel d i j) + (if d_use_bias d then d_bias d j else 0))
       [0..<d_units d]"

subsection \<open>LSTMCell and StackedRNNCells\<close>

text \<open>
  \<open>layers.LSTMCell(units, implementation=1)\<close> with the default activations: the kernels
  have \<open>4 * units\<close> columns, the gates in the order input, forget, cell, output. The
  state of a cell is the pair \<open>(h, c)\<close>, each \<open>[N, units]\<close>; the cell returns \<open>h\<close> and the
  new state.
\<close>

record lstm_cell =
  l_units :: nat
  l_kernel :: "nat \<Rightarrow> nat \<Rightarrow> real"
  l_recurrent_kernel :: "nat \<Rightarrow> nat \<Rightarrow> real"
  l_bias :: "nat \<Rightarrow> real"

definition sigmoid :: "real \<Rightarrow> real" where
  "sigmoid x = 1 / (1 + exp (- x))"

definition lstm_gate :: "lstm_cell \<Rightarrow> vec \<Rightarrow> vec \<Rightarrow> nat \<Rightarrow> nat \<Rightarrow> real" where
  "lstm_gate cell x h g j =
     (let col = g * l_units cell + j
      in dot_kernel x (\<lambda>i. l_kernel cell i col)
         + dot_kernel h (\<lambda>i. l_recurrent_kernel cell i col)
         + l_bias cell col)"

definition lstm_cell_row :: "lstm_cell \<Rightarrow> vec \<Rightarrow> vec \<times> vec \<Rightarrow> vec \<times> vec" where
  "lstm_cell_row cell x st =
     (let h = fst st; c = snd st;
          c' = map (\<lambda>j. sigmoid (lstm_gate cell x h 1 j) * c ! j
                         + sigmoid (lstm_gate cell x h 0 j) * tanh (lstm_gate cell x h 2 j))
                 [0..<l_units cell];
          h' = map (\<lambda>j. sigmoid (lstm_gate cell x h 3 j) * tanh (c' ! j)) [0..<l_units cell]
      in (h', c'))"

type_synonym lstm_state = "vec list \<times> vec list"

definition lstm_cell_call ::
    "lstm_cell \<Rightarrow> vec list \<Rightarrow> lstm_state \<Rightarrow> kwargs \<Rightarrow> vec list \<times> lstm_state" where
  "lstm_cell_call cell inputs st kw =
     (let rows = map (\<lambda>(x, hc). lstm_cell_row cell x hc) (zip inputs (zip (fst st) (snd st)))
      in (map fst rows, (map fst rows, map snd rows)))"

text \<open>
  \<open>StackedRNNCells.call\<close>: every cell consumes the output of the one below and its own
  state; the output is the top cell's.
\<close>

fun stacked_call ::
    "lstm_cell list \<Rightarrow> vec list \<Rightarrow> lstm_state list \<Rightarrow> kwargs \<Rightarrow> vec list \<times> lstm_state list" where
  "stacked_call (cell # cells) inputs (st # sts) kw =
     (let (out, st') = lstm_cell_call cell inputs st kw;
          (top, sts') = stacked_call cells out sts kw
      in (top, st' # sts'))"
| "stacked_call _ inputs _ kw = (inputs, [])"

definition get_initial_state :: "lstm_cell list \<Rightarrow> nat \<Rightarrow> lstm_state list" where
  "get_initial_state cells batch_size =
     map (\<lambda>cell. (replicate batch_size (replicate (l_units cell) 0),
                   replicate batch_size (replicate (l_units cell) 0))) cells"

subsection \<open>Conv2D\<close>

text \<open>
  A feature map of one sample is \<open>[H, W, D]\<close>. \<open>Conv2D(filters, size, strides=1,
  padding="same")\<close>: output location \<open>(h, w)\<close> sums the kernel over the window centred
  there; a window position outside the map is zero padding and adds nothing (its pixel
  is the empty vector).
\<close>

type_synonym fmap = "real list list list"

record conv2d =
  c_filters :: nat
  c_size :: nat
  c_use_bias :: bool
  c_kernel :: "nat \<Rightarrow> nat \<Rightarrow> nat \<Rightarrow> nat \<Rightarrow> real"
  c_bias :: "nat \<Rightarrow> real"

definition pixel :: "fmap \<Rightarrow> int \<Rightarrow> int \<Rightarrow> vec" where
  "pixel m h w =
     (if 0 \<le> h \<and> h < int (length m) \<and> 0 \<le> w \<and> w < int (length (m ! nat h))
      then m ! nat h ! nat w else [])"

definition conv2d_at :: "conv2d \<Rightarrow> fmap \<Rightarrow> nat \<Rightarrow> nat \<Rightarrow> vec" where
  "conv2d_at c m h w =
     (let p = int ((c_size c - 1) div 2)
      in map (\<lambda>u. (\<Sum>di\<leftarrow>[0..<c_size c]. \<Sum>dj\<leftarrow>[0..<c_size c].
                      dot_kernel (pixel m (int h + int di - p) (int w + int dj - p))
                        (\<lambda>ch. c_kernel c di dj ch u))
                   + (if c_use_bias c then c_bias c u else 0))
           [0..<c_filters c])"

definition conv2d_call :: "conv2d \<Rightarrow> fmap \<Rightarrow> kwargs \<Rightarrow> fmap" where
  "conv2d_call c m kw =
     map (\<lambda>h. map (\<lambda>w. conv2d_at c m h w) [0..<length (m ! h)]) [0..<length m]"

section \<open>Tensor helpers\<close>

text \<open>
  \<open>tf.expand_dims\<close> on a rank-2 and on a rank-3 tensor. A negative axis counts from the
  end of the result's shape. (An axis outside the rank is an error in TensorFlow; the
  program passes 1 and -2 only.)
\<close>

definition expand_dims2 :: "'a list list \<Rightarrow> int \<Rightarrow> 'a list list list" where
  "expand_dims2 t axis =
     (let a = (if axis < 0 then axis + 3 else axis)
      in if a = 0 then [t]
         else if a = 1 then map (\<lambda>r. [r]) t
         else map (map (\<lambda>x. [x])) t)"

definition expand_dims3 :: "'a list list list \<Rightarrow> int \<Rightarrow> 'a list list list list" where
  "expand_dims3 t axis =
     (let a = (if axis < 0 then axis + 4 else axis)
      in if a = 0 then [t]
         else if a = 1 then map (\<lambda>r. [r]) t
         else if a = 2 then map (map (\<lambda>r. [r])) t
         else map (map (map (\<lambda>x. [x]))) t)"

text \<open>
  Broadcasting along one axis, as \<open>+\<close> and \<open>tf.math.multiply\<close> do: an axis of size 1 is
  repeated along the other operand's axis.
\<close>

definition bcast :: "('a \<Rightarrow> 'b \<Rightarrow> 'c) \<Rightarrow> 'a list \<Rightarrow> 'b list \<Rightarrow> 'c list" where
  "bcast f xs ys =
     (if length xs = 1 \<and> length ys \<noteq> 1 then map (f (hd xs)) ys
      else if length ys = 1 \<and> length xs \<noteq> 1 then map (\<lambda>x. f x (hd ys)) xs
      else map2 f xs ys)"

definition one_hot :: "nat \<Rightarrow> nat \<Rightarrow> vec" where
  "one_hot i depth = map (\<lambda>j. if j = i then 1 else 0) [0..<depth]"

text \<open>\<open>tf.argmax\<close> over the last axis: the smallest index of a largest entry.\<close>

fun argmax_from :: "nat \<Rightarrow> nat \<Rightarrow> real \<Rightarrow> real list \<Rightarrow> nat" where
  "argmax_from i bi bv [] = bi"
| "argmax_from i bi bv (x # xs) =
     (if bv < x then argmax_from (Suc i) i x xs else argmax_from (Suc i) bi bv xs)"

fun argmax :: "real list \<Rightarrow> nat" where
  "argmax [] = 0"
| "argmax (x # xs) = argmax_from 1 0 x xs"

section \<open>AttentionModule\<close>

record AttentionModule =
  hidden_state_projector :: conv2d
  features_projector :: conv2d
  attention_projector :: conv2d

text \<open>
  \<open>AttentionModule.__init__(attention_units)\<close>. The argument \<open>w\<close> supplies the initial
  kernels (drawn at random by Keras); the constructor fixes every layer's shape.
\<close>

definition AttentionModule_init :: "nat \<Rightarrow> AttentionModule \<Rightarrow> AttentionModule" where
  "AttentionModule_init attention_units w =
     \<lparr>hidden_state_projector =
        (hidden_state_projector w)\<lparr>c_filters := attention_units, c_size := 1, c_use_bias := False\<rparr>,
      features_projector =
        (features_projector w)\<lparr>c_filters := attention_units, c_size := 3, c_use_bias := True\<rparr>,
      attention_projector =
        (attention_projector w)\<lparr>c_filters := 1, c_size := 1, c_use_bias := False\<rparr>\<rparr>"

definition fmap_width :: "fmap \<Rightarrow> nat" where
  "fmap_width m = (case m of [] \<Rightarrow> 0 | r # _ \<Rightarrow> length r)"

definition fmap_depth :: "fmap \<Rightarrow> nat" where
  "fmap_depth m = (case concat m of [] \<Rightarrow> 0 | v # _ \<Rightarrow> length v)"

text \<open>
  The attention distribution of one sample: the scores \<open>[H, W, 1]\<close> flattened to
  \<open>[H * W]\<close> and passed through softmax.
\<close>

definition attention_weights :: "AttentionModule \<Rightarrow> fmap \<Rightarrow> fmap \<Rightarrow> kwargs \<Rightarrow> real list" where
  "attention_weights am features hidden_state kw =
     (let hidden_state_projection = conv2d_call (hidden_state_projector am) hidden_state kw;
          features_projection = conv2d_call (features_projector am) features kw;
          projection =
            map (map (map tanh))
              (bcast (bcast (bcast (+))) hidden_state_projection features_projection);
          attention = conv2d_call (attention_projector am) projection kw
      in softmax (concat (concat attention)))"

text \<open>
  \<open>AttentionModule.call\<close> for one sample: the distribution reshaped to \<open>[H, W, 1]\<close>,
  multiplied into the features, and summed over the two spatial axes.
\<close>

definition attention_sample :: "AttentionModule \<Rightarrow> fmap \<Rightarrow> fmap \<Rightarrow> kwargs \<Rightarrow> vec" where
  "attention_sample am features hidden_state kw =
     (let attention = attention_weights am features hidden_state kw;
          attention_map =
            map (\<lambda>h. map (\<lambda>w. [attention ! (h * fmap_width features + w)])
                        [0..<fmap_width features]) [0..<length features];
          glimpse = bcast (bcast (bcast (*))) features attention_map
      in map (\<lambda>d. \<Sum>v\<leftarrow>concat glimpse. v ! d) [0..<fmap_depth features])"

definition AttentionModule_call ::
    "AttentionModule \<Rightarrow> fmap list \<Rightarrow> fmap list \<Rightarrow> kwargs \<Rightarrow> vec list" where
  "AttentionModule_call am features hidden_state kw =
     map (\<lambda>(f, h). attention_sample am f h kw) (zip features hidden_state)"

text \<open>
  The spec's mean feature vector of a feature map: per channel, the mean over all
  locations.
\<close>

definition mean_feature_vector :: "fmap \<Rightarrow> vec" where
  "mean_feature_vector m =
     map (\<lambda>d. (\<Sum>v\<leftarrow>concat m. v ! d) / real (length (concat m))) [0..<fmap_depth m]"

section \<open>SARDecoder\<close>

record SARDecoder =
  vocab_size :: nat
  max_length :: nat
  lstm_decoder :: "lstm_cell list"
  embed :: dense
  attention_module :: AttentionModule
  output_dense :: dense

text \<open>The initial weights of a decoder, as Keras draws them: one cell per index.\<close>

record decoder_weights =
  w_cells :: "nat \<Rightarrow> lstm_cell"
  w_embed :: dense
  w_attention :: AttentionModule
  w_output :: dense

text \<open>
  \<open>SARDecoder.__init__\<close>. (The optional \<open>input_shape\<close> only builds the attention kernels
  ahead of the first call.)
\<close>

definition SARDecoder_init ::
    "nat \<Rightarrow> nat \<Rightarrow> nat \<Rightarrow> nat \<Rightarrow> nat \<Rightarrow> decoder_weights \<Rightarrow> SARDecoder" where
  "SARDecoder_init rnn_units max_len vocab_sz attention_units num_decoder_layers w =
     \<lparr>vocab_size = vocab_sz,
      max_length = max_len,
      lstm_decoder = map (\<lambda>k. (w_cells w k)\<lparr>l_units := rnn_units\<rparr>) [0..<num_decoder_layers],
      embed = (w_embed w)\<lparr>d_units := rnn_units, d_use_bias := False\<rparr>,
      attention_module = AttentionModule_init attention_units (w_attention w),
      output_dense = (w_output w)\<lparr>d_units := vocab_sz + 1, d_use_bias := True\<rparr>\<rparr>"

definition embed_token :: "SARDecoder \<Rightarrow> nat list \<Rightarrow> kwargs \<Rightarrow> vec list" where
  "embed_token d token kw =
     map (\<lambda>s. dense_call (embed d) (one_hot s (vocab_size d + 1)) kw) token"

subsection \<open>The greedy, teacher-forced loop\<close>

text \<open>
  The body of the loop of \<open>greedy_decode\<close> up to the projection to logits: from the
  running symbol and state to the logits \<open>[N, V+1]\<close> and the new state.
\<close>

definition greedy_step ::
    "SARDecoder \<Rightarrow> nat list \<Rightarrow> lstm_state list \<Rightarrow> fmap list \<Rightarrow> kwargs
       \<Rightarrow> vec list \<times> lstm_state list" where
  "greedy_step d symbol states features kw =
     (let embeded_symbol =
            map (\<lambda>s. dense_call (embed d) (one_hot s (vocab_size d + 1)) kw) symbol;
          (logits, states') = stacked_call (lstm_decoder d) embeded_symbol states kw;
          glimpse =
            AttentionModule_call (attention_module d) features
              (expand_dims3 (expand_dims2 logits 1) 1) kw;
          logits = map2 (@) logits glimpse;
          logits = map (\<lambda>x. dense_call (output_dense d) x kw) logits
      in (logits, states'))"

text \<open>\<open>gt[:, t]\<close>: column \<open>t\<close> of the ground truth; out of range for a row, it is refused.\<close>

definition column :: "nat list list \<Rightarrow> nat \<Rightarrow> error + nat list" where
  "column gt t =
     (if \<forall>row\<in>set gt. t < length row then Inr (map (\<lambda>row. row ! t) gt) else Inl IndexError)"

text \<open>
  The loop over \<open>t\<close> in \<open>range(max_length + 1)\<close>, with the loop variables \<open>symbol\<close>,
  \<open>states\<close> and \<open>logits_list\<close> passed along.
\<close>

fun greedy_loop ::
    "SARDecoder \<Rightarrow> nat list \<Rightarrow> nat list \<Rightarrow> lstm_state list \<Rightarrow> fmap list
       \<Rightarrow> nat list list option \<Rightarrow> kwargs \<Rightarrow> vec list list \<Rightarrow> error + vec list list" where
  "greedy_loop d [] symbol states features gt kw logits_list = Inr logits_list"
| "greedy_loop d (t # ts) symbol states features gt kw logits_list =
     (let (logits, states') = greedy_step d symbol states features kw
      in (case gt of
            Some g \<Rightarrow>
              (case column g t of
                 Inl e \<Rightarrow> Inl e
               | Inr symbol' \<Rightarrow>
                   greedy_loop d ts symbol' states' features gt kw (logits_list @ [logits]))
          | None \<Rightarrow>
              greedy_loop d ts (map argmax logits) states' features gt kw
                (logits_list @ [logits])))"

text \<open>
  \<open>tf.stack(logits_list, axis=1)\<close>: from \<open>L\<close> tensors \<open>[N, C]\<close> to \<open>[N, L, C]\<close>, entry
  \<open>[n, t]\<close> being entry \<open>n\<close> of tensor \<open>t\<close>. All tensors of one call share the batch
  size \<open>N\<close> (TensorFlow refuses anything else).
\<close>

definition stack_axis1 :: "'a list list \<Rightarrow> 'a list list" where
  "stack_axis1 ls = transpose ls"

definition greedy_decode ::
    "SARDecoder \<Rightarrow> nat list \<Rightarrow> lstm_state list \<Rightarrow> fmap list \<Rightarrow> nat list list option
       \<Rightarrow> kwargs \<Rightarrow> error + nat list list \<times> vec list list" where
  "greedy_decode d symbol states features gt kw =
     (case greedy_loop d [0..<max_length d + 1] symbol states features gt kw [] of
        Inl e \<Rightarrow> Inl e
      | Inr logits_list \<Rightarrow>
          (let scores = stack_axis1 logits_list;
               ids = map (map argmax) scores
           in Inr (ids, scores)))"

subsection \<open>Beam search\<close>

text \<open>
  \<open>beam_search.sequence_beam_search\<close> is a function of the TensorFlow Model Garden
  (\<open>official.nlp.modeling.ops\<close>), not of this repository. It is a parameter of the model:
  a function from the keyword arguments of the call to its result, or to an exception.
\<close>

record beam_cache =
  hidden_states :: "lstm_state list"
  features :: "fmap list"

record beam_search_args =
  symbols_to_logits_fn :: "nat list list \<Rightarrow> nat \<Rightarrow> beam_cache \<Rightarrow> vec list \<times> beam_cache"
  initial_ids :: "nat list"
  initial_cache :: beam_cache
  bs_vocab_size :: nat
  beam_size :: int
  alpha :: real
  max_decode_length :: nat
  eos_id :: nat
  padded_decode :: bool

type_synonym beam_search = "beam_search_args \<Rightarrow> error + nat list list list \<times> real list list"

text \<open>
  The step function handed to the search. \<open>ids[:, -1]\<close> is the last token of every
  hypothesis (every hypothesis holds the start token at least). The layers are called
  without \<open>**kwargs\<close>.
\<close>

definition get_symbols_to_logits_fn ::
    "SARDecoder \<Rightarrow> nat list list \<Rightarrow> nat \<Rightarrow> beam_cache \<Rightarrow> vec list \<times> beam_cache" where
  "get_symbols_to_logits_fn d ids i cache =
     (let embeded_symbol = embed_token d (map last ids) None;
          (output, states) = stacked_call (lstm_decoder d) embeded_symbol (hidden_states cache) None;
          cache = cache\<lparr>hidden_states := states\<rparr>;
          glimpse =
            AttentionModule_call (attention_module d) (features cache)
              (expand_dims3 (expand_dims2 output (- 2)) (- 2)) None;
          logits = map2 (@) output glimpse;
          logits = map (\<lambda>x. dense_call (output_dense d) x None) logits
      in (logits, cache))"

definition beam_decode ::
    "beam_search \<Rightarrow> SARDecoder \<Rightarrow> nat list \<Rightarrow> lstm_state list \<Rightarrow> fmap list \<Rightarrow> int
       \<Rightarrow> error + nat list list list \<times> real list list" where
  "beam_decode search d symbol states feats beam_width =
     (let cache = \<lparr>hidden_states = states, features = feats\<rparr>
      in (case search
                \<lparr>symbols_to_logits_fn = get_symbols_to_logits_fn d,
                 initial_ids = symbol,
                 initial_cache = cache,
                 bs_vocab_size = vocab_size d + 1,
                 beam_size = beam_width,
                 alpha = 0,
                 max_decode_length = max_length d + 1,
                 eos_id = vocab_size d,
                 padded_decode = False\<rparr> of
            Inl e \<Rightarrow> Inl e
          | Inr (sequences_ids, sequences_log_probs) \<Rightarrow>
              Inr (map (map (drop 1)) sequences_ids, sequences_log_probs)))"

subsection \<open>The decode call\<close>

text \<open>
  \<open>kwargs.get("training") or beam_width is None\<close>: the test that picks the decode path.
  \<open>kwargs.get\<close> is \<open>None\<close> without the key, and \<open>None\<close> and \<open>False\<close> are falsy.
\<close>

datatype decode_path = Greedy_path | Beam_path

definition training_flag :: "kwargs \<Rightarrow> bool" where
  "training_flag kw = (case kw of None \<Rightarrow> False | Some b \<Rightarrow> b)"

definition select_path :: "kwargs \<Rightarrow> int option \<Rightarrow> decode_path" where
  "select_path kw beam_width =
     (if training_flag kw \<or> beam_width = None then Greedy_path else Beam_path)"

definition start_symbol :: "SARDecoder \<Rightarrow> fmap list \<Rightarrow> nat list" where
  "start_symbol d feats = replicate (length feats) (vocab_size d + 1)"

definition SARDecoder_call ::
    "beam_search \<Rightarrow> SARDecoder \<Rightarrow> fmap list \<Rightarrow> vec list \<Rightarrow> nat list list option \<Rightarrow> int option
       \<Rightarrow> kwargs \<Rightarrow> error + decoded" where
  "SARDecoder_call search d feats holistic gt beam_width kw =
     (let states = get_initial_state (lstm_decoder d) (length feats);
          (_, states) = stacked_call (lstm_decoder d) holistic states kw;
          symbol = start_symbol d feats
      in (case select_path kw beam_width of
            Greedy_path \<Rightarrow>
              (case greedy_decode d symbol states feats gt kw of
                 Inl e \<Rightarrow> Inl e
               | Inr (ids, scores) \<Rightarrow> Inr (Greedy_out ids scores))
          | Beam_path \<Rightarrow>
              (case beam_decode search d symbol states feats (the beam_width) of
                 Inl e \<Rightarrow> Inl e
               | Inr (ids, scores) \<Rightarrow> Inr (Beam_out ids scores))))"

section \<open>The loss\<close>













section \<open>The models\<close>

subsection \<open>The holistic encoder\<close>

text \<open>
  \<open>Sequential([LSTM(rnn_units, return_sequences=True), LSTM(rnn_units,
  return_sequences=False)])\<close>. An \<open>LSTM\<close> layer runs its cell along the sequence from the
  zero state; the second layer returns its last output only.
\<close>

record encoder =
  enc_first :: lstm_cell
  enc_second :: lstm_cell




text \<open>
  \<open>encoder.build(input_shape=(None,) + output_shape[2:])\<close>: an \<open>LSTM\<close> layer takes a rank-3
  input and creates its kernel from the size of the last axis. The build fails unless the
  backbone's output shape has four entries and the last one, the number of channels, is
  known; the width may be \<open>None\<close>.
\<close>

definition encoder_build :: "nat \<Rightarrow> encoder \<Rightarrow> nat option list \<Rightarrow> error + encoder" where
  "encoder_build rnn_units w output_shape =
     (let input_shape = None # drop 2 output_shape
      in if length input_shape = 3 \<and> last input_shape \<noteq> None
         then Inr \<lparr>enc_first = (enc_first w)\<lparr>l_units := rnn_units\<rparr>,
                   enc_second = (enc_second w)\<lparr>l_units := rnn_units\<rparr>\<rparr>
         else Inl ValueError)"

subsection \<open>SAR\<close>

text \<open>
  The weights Keras draws at construction, for the encoder and the decoder.
\<close>

record model_weights =
  mw_encoder :: encoder
  mw_decoder :: decoder_weights

text \<open>
  \<open>SAR.__init__\<close>. Of the feature extractor only \<open>output_shape\<close> is read. (\<open>cfg\<close> is
  stored as it comes and not modelled.)
\<close>

record SAR =
  sar_vocab :: string
  sar_max_length :: nat
  sar_feat_extractor_output_shape :: "nat option list"
  sar_encoder :: encoder
  sar_decoder :: SARDecoder
  sar_postprocessor :: SARPostProcessor

definition SAR_init ::
    "nat option list \<Rightarrow> string \<Rightarrow> nat \<Rightarrow> nat \<Rightarrow> nat \<Rightarrow> nat \<Rightarrow> model_weights \<Rightarrow> error + SAR" where
  "SAR_init feature_extractor_output_shape vocab rnn_units attention_units max_len num_decoders w =
     (case encoder_build rnn_units (mw_encoder w) feature_extractor_output_shape of
        Inl e \<Rightarrow> Inl e
      | Inr enc \<Rightarrow>
          Inr \<lparr>sar_vocab = vocab,
               sar_max_length = max_len + 1,
               sar_feat_extractor_output_shape = feature_extractor_output_shape,
               sar_encoder = enc,
               sar_decoder =
                 SARDecoder_init rnn_units max_len (length vocab) attention_units num_decoders
                   (mw_decoder w),
               sar_postprocessor = RecognitionPostProcessor_init vocab\<rparr>)"

text \<open>The spec's malformed vocabulary: empty, or with a character twice.\<close>

definition malformed_vocab :: "string \<Rightarrow> bool" where
  "malformed_vocab vocab \<longleftrightarrow> vocab = [] \<or> \<not> distinct vocab"

subsection \<open>SAR_without_feature_extractor\<close>








section \<open>The contract of the beam search\<close>

text \<open>
  What the documentation of \<open>sequence_beam_search\<close> promises of its result, for a beam
  size of at least one: for every sample \<open>beam_size\<close> sequences and as many scores; the
  scores in decreasing order (best first); every sequence starts with the sample's
  initial id, holds at most \<open>max_decode_length\<close> further tokens, and these are ids below
  \<open>vocab_size\<close>.
\<close>

definition beam_search_contract :: "beam_search \<Rightarrow> bool" where
  "beam_search_contract search \<longleftrightarrow>
     (\<forall>a ids lp. search a = Inr (ids, lp) \<longrightarrow> 1 \<le> beam_size a \<longrightarrow>
        length ids = length (initial_ids a) \<and> length lp = length (initial_ids a) \<and>
        (\<forall>n<length (initial_ids a).
           length (ids ! n) = nat (beam_size a) \<and> length (lp ! n) = nat (beam_size a) \<and>
           sorted (rev (lp ! n)) \<and>
           (\<forall>s\<in>set (ids ! n).
              s \<noteq> [] \<and> hd s = initial_ids a ! n \<and> length s \<le> max_decode_length a + 1 \<and>
              (\<forall>tok\<in>set (tl s). tok < bs_vocab_size a))))"

section \<open>Example objects\<close>

text \<open>
  A model with all weights zero, and a search that ends every hypothesis at once: concrete
  inputs on which the theorems below are instantiated.
\<close>

definition zero_dense :: dense where
  "zero_dense = \<lparr>d_units = 0, d_use_bias = False, d_kernel = (\<lambda>i j. 0), d_bias = (\<lambda>j. 0)\<rparr>"

definition zero_cell :: lstm_cell where
  "zero_cell =
     \<lparr>l_units = 0, l_kernel = (\<lambda>i j. 0), l_recurrent_kernel = (\<lambda>i j. 0), l_bias = (\<lambda>j. 0)\<rparr>"

definition zero_conv :: conv2d where
  "zero_conv =
     \<lparr>c_filters = 0, c_size = 1, c_use_bias = False, c_kernel = (\<lambda>di dj ch u. 0),
      c_bias = (\<lambda>u. 0)\<rparr>"

definition zero_weights :: model_weights where
  "zero_weights =
     \<lparr>mw_encoder = \<lparr>enc_first = zero_cell, enc_second = zero_cell\<rparr>,
      mw_decoder = \<lparr>w_cells = (\<lambda>k. zero_cell), w_embed = zero_dense,
                    w_attention = \<lparr>hidden_state_projector = zero_conv,
                                   features_projector = zero_conv,
                                   attention_projector = zero_conv\<rparr>,
                    w_output = zero_dense\<rparr>\<rparr>"

definition example_decoder :: SARDecoder where
  "example_decoder = SARDecoder_init 1 1 1 1 1 (mw_decoder zero_weights)"

definition example_search :: beam_search where
  "example_search a =
     (if eos_id a < bs_vocab_size a \<and> 1 \<le> max_decode_length a
      then Inr (map (\<lambda>s. replicate (nat (beam_size a)) [s, eos_id a]) (initial_ids a),
                map (\<lambda>s. replicate (nat (beam_size a)) 0) (initial_ids a))
      else Inl InvalidArgumentError)"



section \<open>The example objects, evaluated\<close>

lemma example_decoder_fields:
  "vocab_size example_decoder = Suc 0" "max_length example_decoder = Suc 0"
  "lstm_decoder example_decoder = [zero_cell\<lparr>l_units := Suc 0\<rparr>]"
  "embed example_decoder = zero_dense\<lparr>d_units := Suc 0, d_use_bias := False\<rparr>"
  "output_dense example_decoder = zero_dense\<lparr>d_units := 2, d_use_bias := True\<rparr>"
  by (simp_all add: example_decoder_def SARDecoder_init_def zero_weights_def)

lemma example_attention_fields:
  "attention_module example_decoder =
     \<lparr>hidden_state_projector = zero_conv\<lparr>c_filters := Suc 0, c_size := Suc 0, c_use_bias := False\<rparr>,
      features_projector = zero_conv\<lparr>c_filters := Suc 0, c_size := 3, c_use_bias := True\<rparr>,
      attention_projector = zero_conv\<lparr>c_filters := Suc 0, c_size := Suc 0, c_use_bias := False\<rparr>\<rparr>"
  by (simp add: example_decoder_def SARDecoder_init_def zero_weights_def AttentionModule_init_def)

lemma dot_kernel_zero: "dot_kernel x (\<lambda>i. 0) = 0"
  by (simp add: dot_kernel_def)

lemma example_dense: 
  "dense_call (zero_dense\<lparr>d_units := n, d_use_bias := b\<rparr>) x kw = replicate n 0"
  by (simp add: dense_call_def zero_dense_def dot_kernel_zero map_replicate_const cong: if_cong)

lemma example_lstm_row:
  "lstm_cell_row (zero_cell\<lparr>l_units := Suc 0\<rparr>) x ([0], [0]) = ([0], [0])"
  by (simp add: lstm_cell_row_def) (simp add: lstm_gate_def zero_cell_def dot_kernel_zero Let_def)

lemma example_lstm_call:
  "lstm_cell_call (zero_cell\<lparr>l_units := Suc 0\<rparr>) [x] ([[0]], [[0]]) kw = ([[0]], ([[0]], [[0]]))"
  by (simp add: lstm_cell_call_def example_lstm_row)

lemma example_conv:
  "conv2d_call (zero_conv\<lparr>c_filters := Suc 0, c_size := k, c_use_bias := b\<rparr>) [[v]] kw = [[[0]]]"
  by (simp add: conv2d_call_def conv2d_at_def zero_conv_def dot_kernel_zero Let_def cong: if_cong)

lemma example_attention:
  "AttentionModule_call (attention_module example_decoder) [[[[0]]]] [[[v]]] kw = [[0]]"
  by (simp add: AttentionModule_call_def attention_sample_def attention_weights_def
      example_attention_fields example_conv bcast_def softmax_def fmap_width_def fmap_depth_def Let_def)

lemma example_step:
  "greedy_step example_decoder [s] [([[0]], [[0]])] [[[[0]]]] kw = ([[0, 0]], [([[0]], [[0]])])"
  by (simp add: greedy_step_def example_decoder_fields example_dense example_lstm_call
      example_attention expand_dims2_def expand_dims3_def Let_def numeral_2_eq_2)

lemma example_greedy_decode:
  "greedy_decode example_decoder [s] [([[0]], [[0]])] [[[[0]]]] None kw
     = Inr ([[0, 0]], [[[0, 0], [0, 0]]])"
  by (simp add: greedy_decode_def example_decoder_fields example_step stack_axis1_def)

lemma example_greedy:
  "SARDecoder_call search example_decoder [[[[0]]]] [[0]] None None None
     = Inr (Greedy_out [[0, 0]] [[[0, 0], [0, 0]]])"
  by (simp add: SARDecoder_call_def example_decoder_fields get_initial_state_def example_lstm_call
      start_symbol_def select_path_def training_flag_def example_greedy_decode)







section \<open>Properties of the post-processor\<close>

lemma map_err_Inr_D: "map_err f xs = Inr ys \<Longrightarrow> list_all2 (\<lambda>x y. f x = Inr y) xs ys"
  by (induction xs arbitrary: ys) (auto split: sum.splits)

lemma map_err_Inr_I: "list_all2 (\<lambda>x y. f x = Inr y) xs ys \<Longrightarrow> map_err f xs = Inr ys"
  by (induction rule: list_all2_induct) auto

lemma map_err_Inr_iff: "map_err f xs = Inr ys \<longleftrightarrow> list_all2 (\<lambda>x y. f x = Inr y) xs ys"
  using map_err_Inr_D map_err_Inr_I by blast

lemma zip_err_same_length: "length xs = length ys \<Longrightarrow> zip_err xs ys = Inr (zip xs ys)"
  by (induction xs ys rule: list_induct2) simp_all




lemma map_err_total:
  assumes "\<forall>x\<in>set xs. \<not> isl (f x)"
  shows "map_err f xs = Inr (map (\<lambda>x. projr (f x)) xs)"
  using assms
proof (induction xs)
  case Nil
  then show ?case by simp
next
  case (Cons x xs)
  then have "f x = Inr (projr (f x))" by (cases "f x") auto
  with Cons show ?case by (auto split: sum.splits)
qed

lemma join_ids_Inr:
  assumes "join_ids emb ids = Inr s"
  shows "(\<forall>i\<in>set ids. i < length emb) \<and> s = concat (map ((!) emb) ids)"
proof -
  from assms obtain ss where ss: "map_err (embedding_lookup emb) ids = Inr ss" and s: "s = concat ss"
    by (auto simp: join_ids_def split: sum.splits)
  from ss have la: "list_all2 (\<lambda>i y. embedding_lookup emb i = Inr y) ids ss"
    by (simp add: map_err_Inr_iff)
  then have "\<forall>i\<in>set ids. i < length emb"
    by (induction rule: list_all2_induct) (auto simp: embedding_lookup_def split: if_splits)
  moreover from la have "ss = map ((!) emb) ids"
    by (induction rule: list_all2_induct) (auto simp: embedding_lookup_def split: if_splits)
  ultimately show ?thesis using s by simp
qed

lemma find_str_Some_iff:
  assumes "sep \<noteq> []"
  shows "find_str sep s = Some p \<longleftrightarrow> prefix sep (drop p s) \<and> (\<forall>j<p. \<not> prefix sep (drop j s))"
  using assms
proof (induction s arbitrary: p)
  case Nil
  then show ?case by auto
next
  case (Cons c cs)
  show ?case
  proof (cases "prefix sep (c # cs)")
    case True
    then show ?thesis by (cases p) auto
  next
    case False
    show ?thesis
    proof (cases p)
      case 0
      with False show ?thesis by simp
    next
      case (Suc q)
      have "(\<forall>j<Suc q. \<not> prefix sep (drop j (c # cs))) \<longleftrightarrow> (\<forall>j<q. \<not> prefix sep (drop j cs))"
        using False by (auto simp: less_Suc_eq_0_disj)
      with False Suc Cons.IH[OF Cons.prems, of q] show ?thesis by auto
    qed
  qed
qed

lemma find_str_None_iff:
  assumes "sep \<noteq> []"
  shows "find_str sep s = None \<longleftrightarrow> (\<forall>k. \<not> prefix sep (drop k s))"
  using assms
proof (induction s)
  case Nil
  then show ?case by auto
next
  case (Cons c cs)
  have "(\<forall>k. \<not> prefix sep (drop k (c # cs))) \<longleftrightarrow> \<not> prefix sep (c # cs) \<and> (\<forall>k. \<not> prefix sep (drop k cs))"
  proof
    assume h: "\<forall>k. \<not> prefix sep (drop k (c # cs))"
    have "\<not> prefix sep (drop 0 (c # cs))" using h by blast
    moreover have "\<not> prefix sep (drop (Suc k) (c # cs))" for k using h by blast
    ultimately show "\<not> prefix sep (c # cs) \<and> (\<forall>k. \<not> prefix sep (drop k cs))" by simp
  next
    assume h: "\<not> prefix sep (c # cs) \<and> (\<forall>k. \<not> prefix sep (drop k cs))"
    show "\<forall>k. \<not> prefix sep (drop k (c # cs))"
    proof
      fix k show "\<not> prefix sep (drop k (c # cs))" using h by (cases k) auto
    qed
  qed
  with Cons show ?case by auto
qed

lemma hd_split_sep:
  "sep \<noteq> [] \<Longrightarrow> hd (split_sep sep s) = (case find_str sep s of None \<Rightarrow> s | Some p \<Rightarrow> take p s)"
  by (subst split_sep.simps) (simp split: option.splits)

lemma split_sep_nonempty: "split_sep sep s \<noteq> []"
  by (subst split_sep.simps) (simp split: option.splits)

lemma foldr_max_ge: "r \<in> set rows \<Longrightarrow> length r \<le> foldr max (map length rows) 0"
  by (induction rows) (auto simp: max_def)

lemma foldr_max_pos:
  assumes "r \<in> set rows" and "r \<noteq> []"
  shows "0 < foldr max (map length rows) 0"
proof -
  have "0 < length r" using assms(2) by simp
  also have "length r \<le> foldr max (map length rows) 0" using assms(1) by (rule foldr_max_ge)
  finally show ?thesis .
qed

lemma first_column_to_dense:
  assumes "\<forall>r\<in>set rows. r \<noteq> []"
  shows "first_column (to_dense d rows) = (if rows = [] then Inl InvalidArgumentError else Inr (map hd rows))"
proof (cases rows)
  case Nil
  then show ?thesis by (simp add: first_column_def to_dense_def)
next
  case (Cons r rs)
  let ?w = "foldr max (map length rows) 0"
  have len: "\<forall>r\<in>set rows. length (r @ replicate (?w - length r) d) = ?w"
    using foldr_max_ge by fastforce
  have wpos: "0 < ?w" using assms Cons foldr_max_pos[of r rows] by auto
  have "foldr max (map length (to_dense d rows)) 0 = ?w"
  proof -
    have "map length (to_dense d rows) = map (\<lambda>_. ?w) rows"
      using len by (simp add: to_dense_def Let_def)
    moreover have "foldr max (map (\<lambda>_. w) xs) 0 = (if xs = [] then 0 else w)" for w :: nat and xs :: "string list list"
      by (induction xs) auto
    ultimately show ?thesis using Cons by simp
  qed
  moreover have "map (\<lambda>r. r ! 0) (to_dense d rows) = map hd rows"
    using assms by (auto simp: to_dense_def Let_def hd_conv_nth nth_append)
  ultimately have "first_column (to_dense d rows) = Inr (map hd rows)"
    using wpos unfolding first_column_def by simp
  then show ?thesis using Cons by simp
qed


lemma eos_marker_nonempty: "eos_marker \<noteq> []"
  by (simp add: eos_marker_def)

lemma hd_split_truncated: "truncated_at_first_eos s (hd (split_sep eos_marker s))"
proof (cases "find_str eos_marker s")
  case None
  then have "\<forall>k. \<not> first_eos_at k s"
    using find_str_None_iff[OF eos_marker_nonempty, of s] by (simp add: first_eos_at_def)
  with None show ?thesis
    using eos_marker_nonempty by (simp add: truncated_at_first_eos_def hd_split_sep)
next
  case (Some p)
  then have p: "first_eos_at p s"
    using find_str_Some_iff[OF eos_marker_nonempty, of s p] by (simp add: first_eos_at_def)
  have uniq: "k = p" if "first_eos_at k s" for k
    using that p unfolding first_eos_at_def by (meson linorder_neqE_nat)
  have "\<not> (\<forall>k. \<not> prefix eos_marker (drop k s))"
    using p unfolding first_eos_at_def by blast
  with Some uniq show ?thesis
    using eos_marker_nonempty by (auto simp: truncated_at_first_eos_def hd_split_sep)
qed

lemma init_embedding_nth:
  "i \<le> length vocab \<Longrightarrow>
   pp_embedding (RecognitionPostProcessor_init vocab) ! i =
     (if i < length vocab then [vocab ! i] else eos_marker)"
  by (simp add: RecognitionPostProcessor_init_def nth_append)

lemma init_embedding_length:
  "length (pp_embedding (RecognitionPostProcessor_init vocab)) = length vocab + 1"
  by (simp add: RecognitionPostProcessor_init_def)

lemma decode_strings_Inr:
  assumes "decode_strings (pp_embedding (RecognitionPostProcessor_init vocab)) idss = Inr strs"
  shows "idss \<noteq> [] \<and> (\<forall>ids\<in>set idss. \<forall>i\<in>set ids. i \<le> length vocab) \<and>
         strs = map (\<lambda>ids. hd (split_sep eos_marker (id_chars vocab ids))) idss"
proof -
  let ?emb = "pp_embedding (RecognitionPostProcessor_init vocab)"
  from assms obtain joined where j: "map_err (join_ids ?emb) idss = Inr joined"
    and fc: "first_column (to_dense ''not valid'' (map (split_sep eos_marker) joined)) = Inr strs"
    by (auto simp: decode_strings_def split: sum.splits)
  from j have la: "list_all2 (\<lambda>ids y. join_ids ?emb ids = Inr y) idss joined"
    by (simp add: map_err_Inr_iff)
  have ok: "\<forall>ids\<in>set idss. \<forall>i\<in>set ids. i \<le> length vocab"
    using la
  proof (induction rule: list_all2_induct)
    case Nil
    then show ?case by simp
  next
    case (Cons ids idss y ys)
    from join_ids_Inr[OF Cons.hyps(1)] have "\<forall>i\<in>set ids. i < length vocab + 1"
      by (simp add: init_embedding_length)
    with Cons.IH show ?case by auto
  qed
  have jn: "joined = map (id_chars vocab) idss"
    using la
  proof (induction rule: list_all2_induct)
    case Nil
    then show ?case by simp
  next
    case (Cons ids idss y ys)
    from join_ids_Inr[OF Cons.hyps(1)]
    have lt: "\<forall>i\<in>set ids. i \<le> length vocab" and y: "y = concat (map ((!) ?emb) ids)"
      by (auto simp: init_embedding_length)
    have "map ((!) ?emb) ids = map (\<lambda>i. if i < length vocab then [vocab ! i] else eos_marker) ids"
      using lt by (simp add: init_embedding_nth)
    with y Cons.IH show ?case by (simp add: id_chars_def)
  qed
  have ne: "\<forall>r\<in>set (map (split_sep eos_marker) joined). r \<noteq> []"
    using split_sep_nonempty by auto
  from fc first_column_to_dense[OF ne, of "''not valid''"]
  have "joined \<noteq> []" and "strs = map hd (map (split_sep eos_marker) joined)"
    by (auto split: if_splits)
  with jn ok show ?thesis by (simp add: comp_def)
qed

lemma chop_rows_concat: "chop_rows (map length xss) (map f (concat xss)) = map (map f) xss"
  by (induction xss) auto

lemma slice_to_nth: "b < length (slice_to k xs) \<Longrightarrow> slice_to k xs ! b = xs ! b"
  by (auto simp: slice_to_def split: if_splits)

lemma slice_to_length_le: "length (slice_to k xs) \<le> length xs"
  by (simp add: slice_to_def)

lemma postprocessor_strings:
  assumes "SARPostProcessor_call (RecognitionPostProcessor_init vocab) d top_sequences = Inr out"
  shows "(case d of
            Greedy_out ids scores \<Rightarrow>
              length (predictions1 out) = length ids \<and>
              (\<forall>n<length ids.
                 (\<forall>i\<in>set (ids ! n). i \<le> length vocab) \<and>
                 truncated_at_first_eos (id_chars vocab (ids ! n)) (predictions1 out ! n))
          | Beam_out ids scores \<Rightarrow>
              length (predictions2 out) = length ids \<and>
              (\<forall>n<length ids. \<forall>b<length (predictions2 out ! n).
                 b < length (ids ! n) \<and>
                 (\<forall>i\<in>set (ids ! n ! b). i \<le> length vocab) \<and>
                 truncated_at_first_eos (id_chars vocab (ids ! n ! b)) (predictions2 out ! n ! b)))"
proof (cases d)
  case (Greedy_out ids scores)
  with assms obtain probs strs where
    ds: "decode_strings (pp_embedding (RecognitionPostProcessor_init vocab)) ids = Inr strs"
    and out: "out = Preds1 strs probs"
    by (auto split: if_splits sum.splits)
  from decode_strings_Inr[OF ds] have
    ok: "\<forall>r\<in>set ids. \<forall>i\<in>set r. i \<le> length vocab"
    and strs: "strs = map (\<lambda>r. hd (split_sep eos_marker (id_chars vocab r))) ids"
    by auto
  have "\<forall>i\<in>set (ids ! n). i \<le> length vocab" if "n < length ids" for n
    using ok that nth_mem by blast
  then show ?thesis
    using Greedy_out out strs hd_split_truncated by simp
next
  case (Beam_out ids scores)
  let ?g = "\<lambda>r. hd (split_sep eos_marker (id_chars vocab r))"
  define k where "k = the top_sequences"
  from Beam_out assms obtain strs where
    ds: "decode_strings (pp_embedding (RecognitionPostProcessor_init vocab)) (concat ids) = Inr strs"
    and out: "predictions2 out = map (slice_to k) (chop_rows (map length ids) strs)"
    by (auto simp: Let_def k_def split: if_splits sum.splits)
  from decode_strings_Inr[OF ds] have
    ok: "\<forall>r\<in>set (concat ids). \<forall>i\<in>set r. i \<le> length vocab"
    and strs: "strs = map ?g (concat ids)"
    by auto
  have p2: "predictions2 out = map (\<lambda>row. slice_to k (map ?g row)) ids"
    using out strs by (simp add: chop_rows_concat)
  have "b < length (ids ! n) \<and> (\<forall>i\<in>set (ids ! n ! b). i \<le> length vocab) \<and>
        truncated_at_first_eos (id_chars vocab (ids ! n ! b)) (predictions2 out ! n ! b)"
    if n: "n < length ids" and b: "b < length (predictions2 out ! n)" for n b
  proof -
    from n p2 have row: "predictions2 out ! n = slice_to k (map ?g (ids ! n))" by simp
    with b have b': "b < length (slice_to k (map ?g (ids ! n)))" by simp
    then have bl: "b < length (ids ! n)"
      using slice_to_length_le[of k "map ?g (ids ! n)"] by simp
    have "ids ! n \<in> set ids" and "ids ! n ! b \<in> set (ids ! n)" using n bl by simp_all
    then have "ids ! n ! b \<in> set (concat ids)" by auto
    with ok have "\<forall>i\<in>set (ids ! n ! b). i \<le> length vocab" by blast
    moreover have "predictions2 out ! n ! b = ?g (ids ! n ! b)"
      using row slice_to_nth[OF b'] bl by simp
    ultimately show ?thesis using bl hd_split_truncated by simp
  qed
  with Beam_out p2 show ?thesis by simp
qed


lemma join_ids_total:
  assumes "\<forall>i\<in>set ids. i \<le> length vocab"
  shows "join_ids (pp_embedding (RecognitionPostProcessor_init vocab)) ids = Inr (id_chars vocab ids)"
proof -
  let ?emb = "pp_embedding (RecognitionPostProcessor_init vocab)"
  have "\<not> isl (embedding_lookup ?emb i)" if "i \<in> set ids" for i
    using that assms by (auto simp: embedding_lookup_def init_embedding_length)
  then have me: "map_err (embedding_lookup ?emb) ids
      = Inr (map (\<lambda>i. projr (embedding_lookup ?emb i)) ids)"
    by (intro map_err_total) blast
  have "map (\<lambda>i. projr (embedding_lookup ?emb i)) ids
      = map (\<lambda>i. if i < length vocab then [vocab ! i] else eos_marker) ids"
    by (rule map_cong[OF refl])
      (use assms in \<open>auto simp: embedding_lookup_def init_embedding_length init_embedding_nth\<close>)
  with me show ?thesis by (simp add: join_ids_def id_chars_def)
qed

lemma decode_strings_total:
  assumes "idss \<noteq> []" and "\<forall>ids\<in>set idss. \<forall>i\<in>set ids. i \<le> length vocab"
  shows "decode_strings (pp_embedding (RecognitionPostProcessor_init vocab)) idss
           = Inr (map (\<lambda>ids. hd (split_sep eos_marker (id_chars vocab ids))) idss)"
proof -
  let ?emb = "pp_embedding (RecognitionPostProcessor_init vocab)"
  have "\<not> isl (join_ids ?emb ids)" if "ids \<in> set idss" for ids
    using that assms(2) join_ids_total[of ids vocab] by simp
  then have "map_err (join_ids ?emb) idss = Inr (map (\<lambda>ids. projr (join_ids ?emb ids)) idss)"
    by (intro map_err_total) blast
  moreover have "map (\<lambda>ids. projr (join_ids ?emb ids)) idss = map (id_chars vocab) idss"
    by (rule map_cong[OF refl]) (use assms(2) join_ids_total in simp)
  ultimately have j: "map_err (join_ids ?emb) idss = Inr (map (id_chars vocab) idss)" by simp
  have ne: "\<forall>r\<in>set (map (split_sep eos_marker) (map (id_chars vocab) idss)). r \<noteq> []"
    using split_sep_nonempty by auto
  show ?thesis
    using j first_column_to_dense[OF ne, of "''not valid''"] assms(1)
    by (simp add: decode_strings_def comp_def)
qed

lemma seq_prob_total:
  assumes "length s = length r" and "\<forall>t<length r. r ! t < length (s ! t)"
  shows "\<not> isl (seq_prob s r)"
proof -
  have "\<not> isl ((\<lambda>(x, i). gather1 (softmax x) i) z)" if "z \<in> set (zip s r)" for z
  proof -
    from that obtain t where "t < length r" "t < length s" "z = (s ! t, r ! t)"
      by (auto simp: in_set_zip)
    with assms(2) show ?thesis by (simp add: gather1_def softmax_def)
  qed
  then have "map_err (\<lambda>(x, i). gather1 (softmax x) i) (zip s r)
      = Inr (map (\<lambda>z. projr ((\<lambda>(x, i). gather1 (softmax x) i) z)) (zip s r))"
    by (intro map_err_total) blast
  then show ?thesis
    using assms(1) by (simp add: seq_prob_def zip_err_same_length)
qed

lemma postprocessor_greedy_returns:
  assumes "\<not> truthy_int top_sequences" and "ids \<noteq> []" and "length scores = length ids"
    and "\<forall>n<length ids. length (scores ! n) = length (ids ! n) \<and>
           (\<forall>t<length (ids ! n). ids ! n ! t < length (scores ! n ! t) \<and> ids ! n ! t \<le> length vocab)"
  shows "\<not> isl (SARPostProcessor_call (RecognitionPostProcessor_init vocab) (Greedy_out ids scores)
                  top_sequences)"
proof -
  have "\<not> isl ((\<lambda>(s, i). seq_prob s i) z)" if "z \<in> set (zip scores ids)" for z
  proof -
    from that obtain n where n: "n < length ids" and z: "z = (scores ! n, ids ! n)"
      by (auto simp: in_set_zip)
    from assms(4) n have "length (scores ! n) = length (ids ! n)"
      and "\<forall>t<length (ids ! n). ids ! n ! t < length (scores ! n ! t)" by auto
    from seq_prob_total[OF this] z show ?thesis by simp
  qed
  then have p: "map_err (\<lambda>(s, i). seq_prob s i) (zip scores ids)
      = Inr (map (\<lambda>z. projr ((\<lambda>(s, i). seq_prob s i) z)) (zip scores ids))"
    by (intro map_err_total) blast
  have ok: "\<forall>r\<in>set ids. \<forall>i\<in>set r. i \<le> length vocab"
  proof (intro ballI)
    fix r i assume "r \<in> set ids" "i \<in> set r"
    then obtain n t where "n < length ids" "r = ids ! n" "t < length r" "i = r ! t"
      by (auto simp: in_set_conv_nth)
    with assms(4) show "i \<le> length vocab" by auto
  qed
  show ?thesis
    using assms(1,3) p decode_strings_total[OF assms(2) ok]
    by (simp add: zip_err_same_length)
qed

lemma postprocessor_beam_returns:
  assumes "truthy_int top_sequences" and "concat ids \<noteq> []"
    and "\<forall>hyps\<in>set ids. \<forall>s\<in>set hyps. \<forall>i\<in>set s. i \<le> length vocab"
  shows "\<not> isl (SARPostProcessor_call (RecognitionPostProcessor_init vocab) (Beam_out ids scores)
                  top_sequences)"
proof -
  have ok: "\<forall>r\<in>set (concat ids). \<forall>i\<in>set r. i \<le> length vocab"
    using assms(3) by auto
  show ?thesis
    using assms(1) decode_strings_total[OF assms(2) ok] by (simp add: Let_def)
qed

text \<open>
  Claim C7. On a well-formed input the post-processor returns: on the greedy layout, for a
  non-empty batch of ids \<open>[N, L]\<close> at most \<open>V\<close> with logits \<open>[N, L, C]\<close> that have an entry for
  every id; on the beam layout, with \<open>top_sequences\<close>, for at least one sequence and ids at
  most \<open>V\<close>. Whenever it returns, in either layout, every id is at most \<open>V\<close> and is mapped
  to its vocabulary character or to the EOS marker, the characters are concatenated, and
  the string returned for the sequence is the prefix of that concatenation before the
  first occurrence of the marker; without an occurrence it is the whole concatenation.
\<close>

theorem postprocessor_truncates_at_first_eos:
  "(\<forall>out. SARPostProcessor_call (RecognitionPostProcessor_init vocab) d top_sequences = Inr out \<longrightarrow>
      (case d of
         Greedy_out ids scores \<Rightarrow>
           length (predictions1 out) = length ids \<and>
           (\<forall>n<length ids.
              (\<forall>i\<in>set (ids ! n). i \<le> length vocab) \<and>
              truncated_at_first_eos (id_chars vocab (ids ! n)) (predictions1 out ! n))
       | Beam_out ids scores \<Rightarrow>
           length (predictions2 out) = length ids \<and>
           (\<forall>n<length ids. \<forall>b<length (predictions2 out ! n).
              b < length (ids ! n) \<and>
              (\<forall>i\<in>set (ids ! n ! b). i \<le> length vocab) \<and>
              truncated_at_first_eos (id_chars vocab (ids ! n ! b)) (predictions2 out ! n ! b)))) \<and>
   (\<not> truthy_int top_sequences \<and> gids \<noteq> [] \<and> length gscores = length gids \<and>
    (\<forall>n<length gids. length (gscores ! n) = length (gids ! n) \<and>
       (\<forall>t<length (gids ! n).
          gids ! n ! t < length (gscores ! n ! t) \<and> gids ! n ! t \<le> length vocab)) \<longrightarrow>
    \<not> isl (SARPostProcessor_call (RecognitionPostProcessor_init vocab) (Greedy_out gids gscores)
             top_sequences)) \<and>
   (truthy_int top_sequences \<and> concat bids \<noteq> [] \<and>
    (\<forall>hyps\<in>set bids. \<forall>s\<in>set hyps. \<forall>i\<in>set s. i \<le> length vocab) \<longrightarrow>
    \<not> isl (SARPostProcessor_call (RecognitionPostProcessor_init vocab) (Beam_out bids bscores)
             top_sequences))"
proof (intro conjI allI impI)
  fix out
  assume "SARPostProcessor_call (RecognitionPostProcessor_init vocab) d top_sequences = Inr out"
  then show "case d of
         Greedy_out ids scores \<Rightarrow>
           length (predictions1 out) = length ids \<and>
           (\<forall>n<length ids.
              (\<forall>i\<in>set (ids ! n). i \<le> length vocab) \<and>
              truncated_at_first_eos (id_chars vocab (ids ! n)) (predictions1 out ! n))
       | Beam_out ids scores \<Rightarrow>
           length (predictions2 out) = length ids \<and>
           (\<forall>n<length ids. \<forall>b<length (predictions2 out ! n).
              b < length (ids ! n) \<and>
              (\<forall>i\<in>set (ids ! n ! b). i \<le> length vocab) \<and>
              truncated_at_first_eos (id_chars vocab (ids ! n ! b)) (predictions2 out ! n ! b))"
    by (rule postprocessor_strings)
next
  assume "\<not> truthy_int top_sequences \<and> gids \<noteq> [] \<and> length gscores = length gids \<and>
    (\<forall>n<length gids. length (gscores ! n) = length (gids ! n) \<and>
       (\<forall>t<length (gids ! n).
          gids ! n ! t < length (gscores ! n ! t) \<and> gids ! n ! t \<le> length vocab))"
  then show "\<not> isl (SARPostProcessor_call (RecognitionPostProcessor_init vocab)
                       (Greedy_out gids gscores) top_sequences)"
    using postprocessor_greedy_returns[of top_sequences gids gscores vocab] by blast
next
  assume "truthy_int top_sequences \<and> concat bids \<noteq> [] \<and>
    (\<forall>hyps\<in>set bids. \<forall>s\<in>set hyps. \<forall>i\<in>set s. i \<le> length vocab)"
  then show "\<not> isl (SARPostProcessor_call (RecognitionPostProcessor_init vocab)
                       (Beam_out bids bscores) top_sequences)"
    using postprocessor_beam_returns[of top_sequences bids vocab bscores] by blast
qed

theorem postprocessor_truncates_at_first_eos_witness:
  "\<not> isl (SARPostProcessor_call (RecognitionPostProcessor_init ''ab'')
            (Greedy_out [[0, 2, 1]] [[[0, 0, 0], [0, 0, 0], [0, 0, 0]]]) None) \<and>
   predictions1 (projr (SARPostProcessor_call (RecognitionPostProcessor_init ''ab'')
            (Greedy_out [[0, 2, 1]] [[[0, 0, 0], [0, 0, 0], [0, 0, 0]]]) None)) = [''a''] \<and>
   first_eos_at 1 (id_chars ''ab'' [0, 2, 1]) \<and>
   \<not> isl (SARPostProcessor_call (RecognitionPostProcessor_init ''ab'')
            (Beam_out [[[0, 2, 1], [1, 1, 0]]] [[0, -1]]) (Some 1)) \<and>
   SARPostProcessor_call (RecognitionPostProcessor_init ''ab'')
     (Beam_out [[[0, 2, 1], [1, 1, 0]]] [[0, -1]]) (Some 1) = Inr (Preds2 [[''a'']] [[1]]) \<and>
   truncated_at_first_eos (id_chars ''ab'' [0, 2, 1]) ''a''"
proof -
  let ?g = "SARPostProcessor_call (RecognitionPostProcessor_init ''ab'')
            (Greedy_out [[0, 2, 1]] [[[0, 0, 0], [0, 0, 0], [0, 0, 0]]]) None"
  let ?b = "SARPostProcessor_call (RecognitionPostProcessor_init ''ab'')
            (Beam_out [[[0, 2, 1], [1, 1, 0]]] [[0, -1]]) (Some 1)"
  have f: "first_eos_at 1 (id_chars ''ab'' [0, 2, 1])"
    by (simp add: first_eos_at_def id_chars_def eos_marker_def)
  note tg = postprocessor_truncates_at_first_eos[where vocab = "''ab''"
      and d = "Greedy_out [[0, 2, 1]] [[[0, 0, 0], [0, 0, 0], [0, 0, 0]]]" and top_sequences = None
      and gids = "[[0, 2, 1]]" and gscores = "[[[0, 0, 0], [0, 0, 0], [0, 0, 0]]]"]
  have g: "\<not> isl ?g"
    by (rule conjunct1[OF conjunct2[OF tg], rule_format])
      (auto simp: truthy_int_def less_Suc_eq)
  then obtain out where out: "?g = Inr out" by (cases ?g) auto
  from conjunct1[OF tg, rule_format, OF out]
  have l: "length (predictions1 out) = 1"
    and tr: "truncated_at_first_eos (id_chars ''ab'' [0, 2, 1]) (predictions1 out ! 0)"
    by auto
  from tr f have "predictions1 out ! 0 = take 1 (id_chars ''ab'' [0, 2, 1])"
    unfolding truncated_at_first_eos_def by blast
  then have "predictions1 out ! 0 = ''a''" by (simp add: id_chars_def)
  with l have pg: "predictions1 out = [''a'']"
    by (cases "predictions1 out") auto
  note tb = postprocessor_truncates_at_first_eos[where vocab = "''ab''"
      and d = "Beam_out [[[0, 2, 1], [1, 1, 0]]] [[0, -1]]" and top_sequences = "Some 1"
      and bids = "[[[0, 2, 1], [1, 1, 0]]]" and bscores = "[[0, -1]]"]
  have b: "\<not> isl ?b"
    by (rule conjunct2[OF conjunct2[OF tb], rule_format]) (simp add: truthy_int_def)
  have call: "?b = Inr (Preds2 [[''a'']] [[1]])"
    by (simp add: RecognitionPostProcessor_init_def truthy_int_def decode_strings_def join_ids_def
        embedding_lookup_def eos_marker_def to_dense_def first_column_def slice_to_def
        split_sep.simps)
  from conjunct1[OF tb, rule_format, OF call]
  have t2: "truncated_at_first_eos (id_chars ''ab'' [0, 2, 1]) ''a''" by simp
  show ?thesis
    using g pg f b call t2 unfolding out by simp
qed

section \<open>The decode path\<close>

text \<open>
  Claim C1, as amended. The greedy, teacher-forced path is taken exactly when the model is
  in training mode or \<open>beam_width\<close> is \<open>None\<close>; the beam path is taken exactly when the
  model is not training and \<open>beam_width\<close> is an integer, whatever its sign. The decode call
  returns what the chosen path returns.
\<close>

theorem decode_path_selection:
  "(select_path kw beam_width = Greedy_path \<longleftrightarrow> training_flag kw \<or> beam_width = None) \<and>
   (select_path kw beam_width = Beam_path \<longleftrightarrow> \<not> training_flag kw \<and> (\<exists>k. beam_width = Some k)) \<and>
   SARDecoder_call search d feats holistic gt beam_width kw =
     (let states = snd (stacked_call (lstm_decoder d) holistic
                          (get_initial_state (lstm_decoder d) (length feats)) kw)
      in if training_flag kw \<or> beam_width = None
         then map_sum id (\<lambda>(ids, scores). Greedy_out ids scores)
                (greedy_decode d (start_symbol d feats) states feats gt kw)
         else map_sum id (\<lambda>(ids, scores). Beam_out ids scores)
                (beam_decode search d (start_symbol d feats) states feats (the beam_width)))"
  by (auto simp: select_path_def SARDecoder_call_def Let_def split_def split: sum.splits)

text \<open>
  Claim C1 as stated fails: with \<open>beam_width = 0\<close> (and with a negative width) outside
  training the test \<open>beam_width is None\<close> is false and the beam path is taken.
\<close>

theorem beam_path_at_zero_width:
  "select_path None (Some 0) = Beam_path \<and> select_path (Some False) (Some (- 3)) = Beam_path
   \<and> (0::int) \<le> 0 \<and> (- 3::int) \<le> 0"
  by (simp add: select_path_def training_flag_def)

section \<open>Construction\<close>

lemma SAR_init_isl:
  "isl (SAR_init shape vocab rnn_units attention_units max_len num_decoders w) \<longleftrightarrow>
   isl (encoder_build rnn_units (mw_encoder w) shape)"
  by (cases "encoder_build rnn_units (mw_encoder w) shape") (simp_all add: SAR_init_def)

lemma SAR_init_Inr_D:
  assumes "SAR_init shape vocab rnn_units attention_units max_len num_decoders w = Inr m"
  shows "sar_vocab m = vocab" and "vocab_size (sar_decoder m) = length vocab"
    and "pp_embedding (sar_postprocessor m) = map (\<lambda>c. [c]) vocab @ [eos_marker]"
proof -
  from assms obtain enc where
    m: "m = \<lparr>sar_vocab = vocab, sar_max_length = max_len + 1,
             sar_feat_extractor_output_shape = shape, sar_encoder = enc,
             sar_decoder = SARDecoder_init rnn_units max_len (length vocab) attention_units
                             num_decoders (mw_decoder w),
             sar_postprocessor = RecognitionPostProcessor_init vocab\<rparr>"
    by (cases "encoder_build rnn_units (mw_encoder w) shape") (auto simp: SAR_init_def)
  show "sar_vocab m = vocab" by (simp add: m)
  show "vocab_size (sar_decoder m) = length vocab" by (simp add: m SARDecoder_init_def)
  show "pp_embedding (sar_postprocessor m) = map (\<lambda>c. [c]) vocab @ [eos_marker]"
    by (simp add: m RecognitionPostProcessor_init_def)
qed

lemma encoder_build_known_channels:
  "\<not> isl (encoder_build rnn_units we [b, h, wd, Some c])"
  by (simp add: encoder_build_def)

text \<open>
  Claim C9, as amended. \<open>SAR.__init__\<close> does not validate the vocabulary: whether
  construction succeeds does not depend on the vocabulary at all; it succeeds, for every
  vocabulary, on a backbone whose output shape has four entries with a known number of
  channels; and the model it builds carries the vocabulary as given, with
  \<open>vocab_size = len(vocab)\<close> and one embedding row per character followed by the EOS
  marker.
\<close>

theorem SAR_init_ignores_vocab:
  "(isl (SAR_init shape vocab rnn_units attention_units max_len num_decoders w) \<longleftrightarrow>
    isl (SAR_init shape vocab' rnn_units attention_units max_len num_decoders w)) \<and>
   (\<forall>m. SAR_init shape vocab rnn_units attention_units max_len num_decoders w = Inr m \<longrightarrow>
      sar_vocab m = vocab \<and> vocab_size (sar_decoder m) = length vocab \<and>
      pp_embedding (sar_postprocessor m) = map (\<lambda>c. [c]) vocab @ [eos_marker]) \<and>
   (\<forall>b h wd c. shape = [b, h, wd, Some c] \<longrightarrow>
      \<not> isl (SAR_init shape vocab rnn_units attention_units max_len num_decoders w))"
proof (intro conjI allI impI)
  show "isl (SAR_init shape vocab rnn_units attention_units max_len num_decoders w) \<longleftrightarrow>
    isl (SAR_init shape vocab' rnn_units attention_units max_len num_decoders w)"
    by (simp only: SAR_init_isl)
next
  fix m assume "SAR_init shape vocab rnn_units attention_units max_len num_decoders w = Inr m"
  then show "sar_vocab m = vocab" and "vocab_size (sar_decoder m) = length vocab"
    and "pp_embedding (sar_postprocessor m) = map (\<lambda>c. [c]) vocab @ [eos_marker]"
    by (rule SAR_init_Inr_D)+
next
  fix b h wd c assume "shape = [b, h, wd, Some c]"
  then show "\<not> isl (SAR_init shape vocab rnn_units attention_units max_len num_decoders w)"
    by (simp only: SAR_init_isl encoder_build_known_channels not_False_eq_True)
qed

theorem SAR_init_ignores_vocab_witness:
  "\<not> isl (SAR_init [None, Some 4, Some 32, Some 512] '''' 512 512 30 2 zero_weights) \<and>
   vocab_size (sar_decoder (projr (SAR_init [None, Some 4, Some 32, Some 512] '''' 512 512 30 2
     zero_weights))) = 0"
proof -
  note t = SAR_init_ignores_vocab[of "[None, Some 4, Some 32, Some 512]" "''''" 512 512 30 2
      zero_weights "''abc''"]
  have s: "\<not> isl (SAR_init [None, Some 4, Some 32, Some 512] '''' 512 512 30 2 zero_weights)"
    by (rule conjunct2[OF conjunct2[OF t], rule_format]) (rule refl)
  then obtain m where m: "SAR_init [None, Some 4, Some 32, Some 512] '''' 512 512 30 2 zero_weights
      = Inr m"
    by (cases "SAR_init [None, Some 4, Some 32, Some 512] '''' 512 512 30 2 zero_weights") auto
  from conjunct1[OF conjunct2[OF t], rule_format, OF m]
  have "vocab_size (sar_decoder m) = 0" by simp
  with s show ?thesis unfolding m by simp
qed

text \<open>
  Claim C9 as stated fails: construction succeeds on the empty vocabulary and on a
  vocabulary with a duplicate character.
\<close>

theorem SAR_init_malformed_vocab_succeeds:
  "malformed_vocab '''' \<and> malformed_vocab ''aa'' \<and>
   \<not> isl (SAR_init [None, Some 4, Some 32, Some 512] '''' 512 512 30 2 zero_weights) \<and>
   \<not> isl (SAR_init [None, Some 4, Some 32, Some 512] ''aa'' 512 512 30 2 zero_weights)"
  by (simp add: malformed_vocab_def SAR_init_def encoder_build_def)

section \<open>SAR_without_feature_extractor\<close>







section \<open>Beam search\<close>

lemma example_search_contract: "beam_search_contract example_search"
  unfolding beam_search_contract_def
proof (intro allI impI)
  fix a ids lp
  assume r: "example_search a = Inr (ids, lp)" and k: "1 \<le> beam_size a"
  from r have e: "eos_id a < bs_vocab_size a" "1 \<le> max_decode_length a"
    and ids: "ids = map (\<lambda>s. replicate (nat (beam_size a)) [s, eos_id a]) (initial_ids a)"
    and lp: "lp = map (\<lambda>s. replicate (nat (beam_size a)) 0) (initial_ids a)"
    by (auto simp: example_search_def split: if_splits)
  show "length ids = length (initial_ids a) \<and> length lp = length (initial_ids a) \<and>
        (\<forall>n<length (initial_ids a).
           length (ids ! n) = nat (beam_size a) \<and> length (lp ! n) = nat (beam_size a) \<and>
           sorted (rev (lp ! n)) \<and>
           (\<forall>s\<in>set (ids ! n).
              s \<noteq> [] \<and> hd s = initial_ids a ! n \<and> length s \<le> max_decode_length a + 1 \<and>
              (\<forall>tok\<in>set (tl s). tok < bs_vocab_size a)))"
    using e by (simp add: ids lp)
qed

lemma beam_decode_spec:
  assumes "1 \<le> k"
  shows "beam_decode search d symbol states feats k =
           (case search
                   \<lparr>symbols_to_logits_fn = get_symbols_to_logits_fn d,
                    initial_ids = symbol,
                    initial_cache = \<lparr>hidden_states = states, features = feats\<rparr>,
                    bs_vocab_size = vocab_size d + 1,
                    beam_size = k,
                    alpha = 0,
                    max_decode_length = max_length d + 1,
                    eos_id = vocab_size d,
                    padded_decode = False\<rparr> of
              Inl e \<Rightarrow> Inl e
            | Inr (raw, lp) \<Rightarrow> Inr (map (map (drop 1)) raw, lp)) \<and>
         (beam_search_contract search \<longrightarrow>
            (\<forall>ids lp. beam_decode search d symbol states feats k = Inr (ids, lp) \<longrightarrow>
               length ids = length symbol \<and> length lp = length symbol \<and>
               (\<forall>n<length symbol.
                  length (ids ! n) = nat k \<and> length (lp ! n) = nat k \<and> sorted (rev (lp ! n)) \<and>
                  (\<forall>s\<in>set (ids ! n).
                     length s \<le> max_length d + 1 \<and> (\<forall>tok\<in>set s. tok \<le> vocab_size d)))))"
proof -
  let ?a = "\<lparr>symbols_to_logits_fn = get_symbols_to_logits_fn d,
              initial_ids = symbol,
              initial_cache = \<lparr>hidden_states = states, features = feats\<rparr>,
              bs_vocab_size = vocab_size d + 1,
              beam_size = k,
              alpha = 0,
              max_decode_length = max_length d + 1,
              eos_id = vocab_size d,
              padded_decode = False\<rparr>"
  have eq: "beam_decode search d symbol states feats k =
      (case search ?a of Inl e \<Rightarrow> Inl e | Inr (raw, lp) \<Rightarrow> Inr (map (map (drop 1)) raw, lp))"
    by (simp add: beam_decode_def)
  have "length ids = length symbol \<and> length lp = length symbol \<and>
        (\<forall>n<length symbol.
           length (ids ! n) = nat k \<and> length (lp ! n) = nat k \<and> sorted (rev (lp ! n)) \<and>
           (\<forall>s\<in>set (ids ! n). length s \<le> max_length d + 1 \<and> (\<forall>tok\<in>set s. tok \<le> vocab_size d)))"
    if c: "beam_search_contract search"
    and r: "beam_decode search d symbol states feats k = Inr (ids, lp)" for ids lp
  proof (intro conjI)
  from r eq obtain raw where raw: "search ?a = Inr (raw, lp)" and ids: "ids = map (map (drop 1)) raw"
    by (auto split: sum.splits)
  from c raw assms have len: "length raw = length symbol" "length lp = length symbol"
    and rows: "\<forall>n<length symbol.
           length (raw ! n) = nat k \<and> length (lp ! n) = nat k \<and> sorted (rev (lp ! n)) \<and>
           (\<forall>s\<in>set (raw ! n).
              s \<noteq> [] \<and> hd s = symbol ! n \<and> length s \<le> max_length d + 1 + 1 \<and>
              (\<forall>tok\<in>set (tl s). tok < vocab_size d + 1))"
    unfolding beam_search_contract_def by (fastforce)+
  show "length ids = length symbol" using len ids by simp
  show "length lp = length symbol" using len by simp
  show "\<forall>n<length symbol.
          length (ids ! n) = nat k \<and> length (lp ! n) = nat k \<and> sorted (rev (lp ! n)) \<and>
          (\<forall>s\<in>set (ids ! n). length s \<le> max_length d + 1 \<and> (\<forall>tok\<in>set s. tok \<le> vocab_size d))"
  proof (intro allI impI)
    fix n assume n: "n < length symbol"
    with rows have rn: "length (raw ! n) = nat k" "length (lp ! n) = nat k" "sorted (rev (lp ! n))"
      and seqs: "\<forall>s\<in>set (raw ! n).
              s \<noteq> [] \<and> length s \<le> max_length d + 1 + 1 \<and> (\<forall>tok\<in>set (tl s). tok < vocab_size d + 1)"
      by auto
    have idn: "ids ! n = map (drop 1) (raw ! n)" using ids n len by simp
    have "length s \<le> max_length d + 1 \<and> (\<forall>tok\<in>set s. tok \<le> vocab_size d)"
      if "s \<in> set (ids ! n)" for s
    proof -
      from that idn obtain r where r: "r \<in> set (raw ! n)" and s: "s = drop 1 r" by auto
      with seqs have "r \<noteq> []" "length r \<le> max_length d + 1 + 1"
        "\<forall>tok\<in>set (tl r). tok < vocab_size d + 1" by auto
      then show ?thesis using s by (cases r) auto
    qed
    with rn idn show "length (ids ! n) = nat k \<and> length (lp ! n) = nat k \<and> sorted (rev (lp ! n)) \<and>
          (\<forall>s\<in>set (ids ! n). length s \<le> max_length d + 1 \<and> (\<forall>tok\<in>set s. tok \<le> vocab_size d))"
      by simp
  qed
  qed
  with eq show ?thesis by blast
qed

text \<open>
  Claim C6. For a beam width \<open>k\<close> of at least one, \<open>beam_decode\<close> runs the search with
  \<open>max_decode_length = max_length + 1\<close>, no length penalty (\<open>alpha = 0\<close>), \<open>eos_id = V\<close>,
  \<open>vocab_size = V + 1\<close> and \<open>beam_size = k\<close>, and returns the search's sequences without
  their first token, with the search's log-probabilities unchanged. The search is the
  library's: when it keeps its contract, the ids returned are \<open>[N, k, seq_len]\<close> with
  \<open>seq_len\<close> at most \<open>max_length + 1\<close> and every id at most \<open>V\<close>, and the log-probabilities
  are \<open>[N, k]\<close>, best first.
\<close>

theorem beam_decode_search_arguments:
  assumes "1 \<le> k"
  shows "beam_decode search d symbol states feats k =
           (case search
                   \<lparr>symbols_to_logits_fn = get_symbols_to_logits_fn d,
                    initial_ids = symbol,
                    initial_cache = \<lparr>hidden_states = states, features = feats\<rparr>,
                    bs_vocab_size = vocab_size d + 1,
                    beam_size = k,
                    alpha = 0,
                    max_decode_length = max_length d + 1,
                    eos_id = vocab_size d,
                    padded_decode = False\<rparr> of
              Inl e \<Rightarrow> Inl e
            | Inr (raw, lp) \<Rightarrow> Inr (map (map (drop 1)) raw, lp)) \<and>
         (beam_search_contract search \<longrightarrow>
            (\<forall>ids lp. beam_decode search d symbol states feats k = Inr (ids, lp) \<longrightarrow>
               length ids = length symbol \<and> length lp = length symbol \<and>
               (\<forall>n<length symbol.
                  length (ids ! n) = nat k \<and> length (lp ! n) = nat k \<and> sorted (rev (lp ! n)) \<and>
                  (\<forall>s\<in>set (ids ! n).
                     length s \<le> max_length d + 1 \<and> (\<forall>tok\<in>set s. tok \<le> vocab_size d)))))"
  using assms by (rule beam_decode_spec)

theorem beam_decode_search_arguments_witness:
  "(1::int) \<le> 2 \<and> beam_search_contract example_search \<and>
   beam_decode example_search example_decoder [2] [([[0]], [[0]])] [[[[0]]]] 2
     = Inr ([[[1], [1]]], [[0, 0]]) \<and>
   sorted (rev [0, 0::real]) \<and> length [1::nat] \<le> max_length example_decoder + 1"
proof -
  have k: "(1::int) \<le> 2" by simp
  have ev: "beam_decode example_search example_decoder [2] [([[0]], [[0]])] [[[[0]]]] 2
     = Inr ([[[1], [1]]], [[0, 0]])"
    using conjunct1[OF beam_decode_search_arguments[OF k, of example_search example_decoder "[2]"
        "[([[0]], [[0]])]" "[[[[0]]]]"]]
    by (simp add: example_search_def example_decoder_fields numeral_2_eq_2)
  show ?thesis
    using k ev example_search_contract by (simp add: example_decoder_fields)
qed


section \<open>One decoder step\<close>

lemma expand_dims_agree:
  "expand_dims3 (expand_dims2 t (- 2)) (- 2) = expand_dims3 (expand_dims2 t 1) 1"
  by (simp add: expand_dims2_def expand_dims3_def)

lemma dense_call_kwargs: "dense_call d x kw = dense_call d x None"
  by (simp add: dense_call_def)

lemma lstm_cell_call_kwargs: "lstm_cell_call c xs st kw = lstm_cell_call c xs st None"
  by (simp add: lstm_cell_call_def)

lemma stacked_call_kwargs: "stacked_call cells xs sts kw = stacked_call cells xs sts None"
proof (induction cells xs sts kw rule: stacked_call.induct)
  case (1 cell cells inputs st sts kw)
  obtain out st' where o: "lstm_cell_call cell inputs st None = (out, st')"
    by (cases "lstm_cell_call cell inputs st None")
  then have "lstm_cell_call cell inputs st kw = (out, st')"
    using lstm_cell_call_kwargs[of cell inputs st kw] by simp
  with "1.IH"[of "(out, st')" out st'] o show ?case by simp
qed simp_all

lemma AttentionModule_call_kwargs:
  "AttentionModule_call am fs hs kw = AttentionModule_call am fs hs None"
  by (simp add: AttentionModule_call_def attention_sample_def attention_weights_def conv2d_call_def)

text \<open>
  Claim C3. On the same previous tokens, hidden state and feature maps, one step of the
  beam search's \<open>symbols_to_logits_fn\<close> returns the logits and the new hidden state that
  the body of the greedy loop computes, whatever \<open>**kwargs\<close> the greedy loop forwards.
\<close>

theorem greedy_step_agrees_with_beam_step:
  "get_symbols_to_logits_fn d ids i \<lparr>hidden_states = states, features = feats\<rparr> =
     (fst (greedy_step d (map last ids) states feats kw),
      \<lparr>hidden_states = snd (greedy_step d (map last ids) states feats kw), features = feats\<rparr>)"
proof -
  have "greedy_step d (map last ids) states feats kw = greedy_step d (map last ids) states feats None"
    unfolding greedy_step_def
    by (subst stacked_call_kwargs, subst AttentionModule_call_kwargs, subst dense_call_kwargs,
        subst (2) dense_call_kwargs) simp
  then show ?thesis
    by (simp add: get_symbols_to_logits_fn_def greedy_step_def embed_token_def expand_dims_agree
        Let_def split_def comp_def)
qed

section \<open>The start token\<close>

lemma argmax_from_bound: "bi < i \<Longrightarrow> argmax_from i bi bv xs < i + length xs"
proof (induction xs arbitrary: i bi bv)
  case Nil
  then show ?case by simp
next
  case (Cons x xs)
  have "argmax_from (Suc i) i x xs < Suc i + length xs"
    by (rule Cons.IH) simp
  moreover have "argmax_from (Suc i) bi bv xs < Suc i + length xs"
    by (rule Cons.IH) (use Cons.prems in simp)
  ultimately show ?case by simp
qed

lemma argmax_bound: "xs \<noteq> [] \<Longrightarrow> argmax xs < length xs"
  using argmax_from_bound[of 0 1] by (cases xs) auto

lemma transpose_elem:
  assumes "row \<in> set (transpose xss)" and "x \<in> set row"
  shows "\<exists>xs\<in>set xss. x \<in> set xs"
proof -
  from assms(1) obtain i where i: "i < length (transpose xss)" and row: "row = transpose xss ! i"
    by (auto simp: in_set_conv_nth)
  from row i have "row = map (\<lambda>xs. xs ! i) (filter (\<lambda>ys. i < length ys) xss)"
    by (simp add: nth_transpose)
  with assms(2) obtain xs where "xs \<in> set xss" "i < length xs" "x = xs ! i" by auto
  then show ?thesis using nth_mem by blast
qed

lemma transpose_row_length:
  assumes "row \<in> set (transpose xss)"
  shows "length row \<le> length xss"
proof -
  from assms obtain i where i: "i < length (transpose xss)" and row: "row = transpose xss ! i"
    by (auto simp: in_set_conv_nth)
  from row i have "row = map (\<lambda>xs. xs ! i) (filter (\<lambda>ys. i < length ys) xss)"
    by (simp add: nth_transpose)
  then show ?thesis by simp
qed

lemma greedy_step_rows:
  assumes "v \<in> set (fst (greedy_step d symbol states feats kw))"
  shows "length v = d_units (output_dense d)"
  using assms by (auto simp: greedy_step_def Let_def split_def dense_call_def)

lemma greedy_loop_inv:
  assumes "greedy_loop d ts symbol states feats gt kw acc = Inr ls"
    and "\<forall>l\<in>set acc. \<forall>v\<in>set l. length v = d_units (output_dense d)"
  shows "length ls = length acc + length ts \<and>
         (\<forall>l\<in>set ls. \<forall>v\<in>set l. length v = d_units (output_dense d))"
  using assms
proof (induction ts arbitrary: symbol states acc)
  case Nil
  then show ?case by simp
next
  case (Cons t ts)
  obtain logits states' where st: "greedy_step d symbol states feats kw = (logits, states')"
    by (cases "greedy_step d symbol states feats kw")
  have rows: "\<forall>v\<in>set logits. length v = d_units (output_dense d)"
    using greedy_step_rows[of _ d symbol states feats kw] st by simp
  have acc': "\<forall>l\<in>set (acc @ [logits]). \<forall>v\<in>set l. length v = d_units (output_dense d)"
    using Cons.prems(2) rows by auto
  from Cons.prems(1) st obtain symbol' where
    "greedy_loop d ts symbol' states' feats gt kw (acc @ [logits]) = Inr ls"
    by (auto split: option.splits sum.splits)
  from Cons.IH[OF this acc'] show ?case by simp
qed

lemma greedy_decode_ids:
  assumes "greedy_decode d symbol states feats gt kw = Inr (ids, scores)"
  shows "\<forall>row\<in>set ids. length row \<le> max_length d + 1 \<and>
           (\<forall>i\<in>set row. 0 < d_units (output_dense d) \<longrightarrow> i < d_units (output_dense d))"
proof -
  from assms obtain ls where
    ls: "greedy_loop d [0..<max_length d + 1] symbol states feats gt kw [] = Inr ls"
    and ids: "ids = map (map argmax) (transpose ls)"
    by (auto simp: greedy_decode_def stack_axis1_def Let_def split: sum.splits)
  from greedy_loop_inv[OF ls] have len: "length ls = max_length d + 1"
    and rows: "\<forall>l\<in>set ls. \<forall>v\<in>set l. length v = d_units (output_dense d)"
    by auto
  show ?thesis
  proof (intro ballI conjI impI)
    fix row assume "row \<in> set ids"
    with ids obtain r where r: "r \<in> set (transpose ls)" and row: "row = map argmax r" by auto
    from transpose_row_length[OF r] len row show "length row \<le> max_length d + 1" by simp
    fix i assume i: "i \<in> set row" and pos: "0 < d_units (output_dense d)"
    with row obtain v where v: "v \<in> set r" and iv: "i = argmax v" by auto
    from transpose_elem[OF r v] rows have "length v = d_units (output_dense d)" by auto
    moreover from this pos have "v \<noteq> []" by auto
    ultimately show "i < d_units (output_dense d)" using iv argmax_bound[of v] by simp
  qed
qed

lemma one_hot_out_of_range: "depth \<le> i \<Longrightarrow> one_hot i depth = replicate depth 0"
  by (simp add: one_hot_def list_eq_iff_nth_eq)

lemma dot_kernel_zeros: "dot_kernel (replicate n 0) k = 0"
proof -
  have "map (\<lambda>i. replicate n 0 ! i * k i) [0..<n] = map (\<lambda>i. 0) [0..<n]"
    by (rule map_cong) auto
  then have "sum_list (map (\<lambda>i. replicate n 0 ! i * k i) [0..<n]) = sum_list (map (\<lambda>i. 0) [0..<n])"
    by (simp only:)
  then show ?thesis by (simp add: dot_kernel_def)
qed

lemma dense_no_bias_zeros:
  "\<not> d_use_bias d \<Longrightarrow> dense_call d (replicate n 0) kw = replicate (d_units d) 0"
  by (simp add: dense_call_def dot_kernel_zeros map_replicate_const)

text \<open>
  Claim C8. For a decoder built by \<open>SARDecoder.__init__\<close> over \<open>V\<close> characters: the first
  symbol fed in a decode call is \<open>V + 1\<close> for every sample; its one-hot encoding over depth
  \<open>V + 1\<close> is all zero; the embedding of it (a \<open>Dense\<close> layer without bias) is the zero
  vector of \<open>rnn_units\<close> entries; and no id the decode call returns is \<open>V + 1\<close>: every id
  is at most \<open>V\<close>, on the greedy path always, on the beam path when the library's search
  keeps its contract.
\<close>

theorem start_token_embeds_to_zero:
  "(let d = SARDecoder_init rnn_units max_len V attention_units num_layers w in
         start_symbol d feats = replicate (length feats) (V + 1) \<and>
         one_hot (V + 1) (V + 1) = replicate (V + 1) 0 \<and>
         embed_token d (start_symbol d feats) kw = replicate (length feats) (replicate rnn_units 0) \<and>
         (\<forall>ids scores. SARDecoder_call search d feats holistic gt beam_width kw = Inr (Greedy_out ids scores)
            \<longrightarrow> (\<forall>row\<in>set ids. \<forall>i\<in>set row. i \<le> V)) \<and>
         (\<forall>ids scores. beam_search_contract search \<and> 1 \<le> the beam_width \<and>
            SARDecoder_call search d feats holistic gt beam_width kw = Inr (Beam_out ids scores)
            \<longrightarrow> (\<forall>hyps\<in>set ids. \<forall>s\<in>set hyps. \<forall>i\<in>set s. i \<le> V)))"
proof -
  define d where "d = SARDecoder_init rnn_units max_len V attention_units num_layers w"
  have V: "vocab_size d = V" and out: "d_units (output_dense d) = V + 1"
    and emb: "\<not> d_use_bias (embed d)" "d_units (embed d) = rnn_units"
    by (simp_all add: d_def SARDecoder_init_def)
  have a: "start_symbol d feats = replicate (length feats) (V + 1)"
    by (simp add: start_symbol_def V)
  have b: "one_hot (V + 1) (V + 1) = replicate (V + 1) 0"
    by (rule one_hot_out_of_range) simp
  have e: "dense_call (embed d) (one_hot (V + 1) (vocab_size d + 1)) kw = replicate rnn_units 0"
    unfolding V b using dense_no_bias_zeros[OF emb(1), of "V + 1" kw] emb(2) by simp
  have c: "embed_token d (start_symbol d feats) kw = replicate (length feats) (replicate rnn_units 0)"
    unfolding embed_token_def a by (simp only: map_replicate e)
  have g: "\<forall>row\<in>set ids. \<forall>i\<in>set row. i \<le> V"
    if "SARDecoder_call search d feats holistic gt beam_width kw = Inr (Greedy_out ids scores)"
    for ids scores
  proof -
    from that obtain symbol states where
      "greedy_decode d symbol states feats gt kw = Inr (ids, scores)"
      by (auto simp: SARDecoder_call_def Let_def split_def split: decode_path.splits sum.splits)
    from greedy_decode_ids[OF this] out show ?thesis by fastforce
  qed
  have bm: "\<forall>hyps\<in>set ids. \<forall>s\<in>set hyps. \<forall>i\<in>set s. i \<le> V"
    if c: "beam_search_contract search" and k: "1 \<le> the beam_width"
      and r: "SARDecoder_call search d feats holistic gt beam_width kw = Inr (Beam_out ids scores)"
    for ids scores
  proof -
    from r obtain symbol states where
      bd: "beam_decode search d symbol states feats (the beam_width) = Inr (ids, scores)"
      by (auto simp: SARDecoder_call_def Let_def split_def split: decode_path.splits sum.splits)
    from conjunct2[OF beam_decode_spec[OF k, of search d symbol states feats]] c bd
    have len: "length ids = length symbol"
      and rows: "\<forall>n<length symbol. \<forall>s\<in>set (ids ! n). \<forall>tok\<in>set s. tok \<le> vocab_size d"
      by blast+
    show ?thesis
    proof (intro ballI)
      fix hyps s i assume "hyps \<in> set ids" "s \<in> set hyps" "i \<in> set s"
      then obtain n where "n < length ids" "hyps = ids ! n" by (auto simp: in_set_conv_nth)
      with rows len \<open>s \<in> set hyps\<close> \<open>i \<in> set s\<close> V show "i \<le> V" by auto
    qed
  qed
  from a b c g bm show ?thesis unfolding Let_def d_def[symmetric] by blast
qed


lemma example_beam_decode:
  "beam_decode example_search example_decoder [2] [([[0]], [[0]])] [[[[0]]]] 2
     = Inr ([[[Suc 0], [Suc 0]]], [[0, 0]])"
  by (simp add: beam_decode_def example_search_def example_decoder_fields numeral_2_eq_2)

lemma example_beam:
  "SARDecoder_call example_search example_decoder [[[[0]]]] [x] None (Some 2) None
     = Inr (Beam_out [[[Suc 0], [Suc 0]]] [[0, 0]])"
proof -
  have "start_symbol example_decoder [[[[0]]]] = [2]"
    by (simp add: start_symbol_def example_decoder_fields)
  then show ?thesis
    by (simp add: SARDecoder_call_def example_decoder_fields get_initial_state_def
        example_lstm_call select_path_def training_flag_def example_beam_decode)
qed

theorem start_token_embeds_to_zero_witness:
  "start_symbol example_decoder [[[[0]]]] = [2] \<and>
   one_hot 2 2 = [0, 0] \<and>
   embed_token example_decoder [2] None = [[0]] \<and>
   SARDecoder_call example_search example_decoder [[[[0]]]] [[0]] None None None
     = Inr (Greedy_out [[0, 0]] [[[0, 0], [0, 0]]]) \<and> (0::nat) \<le> 1 \<and>
   beam_search_contract example_search \<and> (1::int) \<le> the (Some 2) \<and>
   SARDecoder_call example_search example_decoder [[[[0]]]] [[0]] None (Some 2) None
     = Inr (Beam_out [[[1], [1]]] [[0, 0]]) \<and> (1::nat) \<le> 1"
proof -
  note t = start_token_embeds_to_zero[of 1 1 1 1 1 "mw_decoder zero_weights" "[[[[0]]]]" None
      example_search "[[0]]" None, unfolded Let_def, folded example_decoder_def]
  have s: "start_symbol example_decoder [[[[0]]]] = [2]"
    using t[of None] by (simp add: numeral_2_eq_2)
  have o: "one_hot 2 2 = [0, 0]"
    using t[of None] by (simp add: numeral_2_eq_2)
  have e: "embed_token example_decoder [2] None = [[0]]"
    using t[of None] s by simp
  show ?thesis
    using s o e example_greedy[of example_search] example_beam[of "[0]"] example_search_contract
    by simp
qed

section \<open>Length of the decoded strings\<close>

lemma sublist_iff_prefix_drop: "sublist m t \<longleftrightarrow> (\<exists>k. prefix m (drop k t))"
proof
  assume "sublist m t"
  then obtain ps ss where "t = ps @ m @ ss" by (auto simp: sublist_def)
  then have "prefix m (drop (length ps) t)" by simp
  then show "\<exists>k. prefix m (drop k t)" ..
next
  assume "\<exists>k. prefix m (drop k t)"
  then obtain k ss where "drop k t = m @ ss" by (auto simp: prefix_def)
  then have "t = take k t @ m @ ss" by (metis append_take_drop_id)
  then show "sublist m t" unfolding sublist_def by blast
qed

lemma prefix_drop_take:
  assumes "prefix m (drop k (take p s))" and "m \<noteq> []"
  shows "prefix m (drop k s) \<and> k < p"
proof -
  have "drop k (take p s) = take (p - k) (drop k s)" by (simp add: drop_take)
  with assms(1) have pm: "prefix m (take (p - k) (drop k s))" by simp
  then have "prefix m (drop k s)" using take_is_prefix prefix_order.trans by blast
  moreover have "k < p"
  proof (rule ccontr)
    assume "\<not> k < p"
    with pm have "prefix m []" by simp
    with assms(2) show False by simp
  qed
  ultimately show ?thesis ..
qed

lemma first_piece_no_marker: "\<not> sublist eos_marker (hd (split_sep eos_marker s))"
proof (cases "find_str eos_marker s")
  case None
  then have "\<forall>k. \<not> prefix eos_marker (drop k s)"
    using find_str_None_iff[OF eos_marker_nonempty] by simp
  with None show ?thesis
    by (simp add: hd_split_sep eos_marker_nonempty sublist_iff_prefix_drop)
next
  case (Some p)
  then have first: "\<forall>j<p. \<not> prefix eos_marker (drop j s)"
    using find_str_Some_iff[OF eos_marker_nonempty] by simp
  have "\<not> prefix eos_marker (drop k (take p s))" for k
    using prefix_drop_take[OF _ eos_marker_nonempty, of k p s] first by blast
  with Some show ?thesis
    by (simp add: hd_split_sep eos_marker_nonempty sublist_iff_prefix_drop)
qed

lemma first_piece_length_Cons:
  "length (hd (split_sep eos_marker (c # s))) \<le> Suc (length (hd (split_sep eos_marker s)))"
  by (auto simp: hd_split_sep eos_marker_nonempty split: option.splits dest: find_str_bound)

lemma first_piece_marker: "hd (split_sep eos_marker (eos_marker @ s)) = []"
  by (simp add: hd_split_sep eos_marker_nonempty) (simp add: eos_marker_def)

lemma first_piece_length: "length (hd (split_sep eos_marker (id_chars vocab ids))) \<le> length ids"
proof (induction ids)
  case Nil
  then show ?case by (simp add: id_chars_def hd_split_sep eos_marker_nonempty)
next
  case (Cons i ids)
  have step: "id_chars vocab (i # ids) =
      (if i < length vocab then vocab ! i # id_chars vocab ids else eos_marker @ id_chars vocab ids)"
    by (simp add: id_chars_def)
  show ?case
  proof (cases "i < length vocab")
    case True
    with step first_piece_length_Cons[of "vocab ! i" "id_chars vocab ids"] Cons.IH
    show ?thesis by simp
  next
    case False
    with step first_piece_marker show ?thesis by simp
  qed
qed

text \<open>
  Claim C4, as amended. Every string the post-processor returns for the output of a decode
  call has length at most \<open>max_length + 1\<close>, the number of decode steps, and never
  contains the EOS marker. (On the beam path the sequences are the library's, and the
  bound holds when the search keeps its contract.)
\<close>

theorem decoded_strings_bounded:
  assumes dec: "SARDecoder_call search d feats holistic gt beam_width kw = Inr dec"
    and post: "SARPostProcessor_call (RecognitionPostProcessor_init vocab) dec top_sequences = Inr out"
    and lib: "select_path kw beam_width = Beam_path \<longrightarrow>
                beam_search_contract search \<and> 1 \<le> the beam_width"
  shows "\<forall>s\<in>all_predictions out. length s \<le> max_length d + 1 \<and> \<not> sublist eos_marker s"
proof (cases dec)
  case (Greedy_out ids scores)
  let ?g = "\<lambda>r. hd (split_sep eos_marker (id_chars vocab r))"
  from dec Greedy_out obtain symbol states where
    "greedy_decode d symbol states feats gt kw = Inr (ids, scores)"
    by (auto simp: SARDecoder_call_def Let_def split_def split: decode_path.splits sum.splits)
  from greedy_decode_ids[OF this] have rows: "\<forall>row\<in>set ids. length row \<le> max_length d + 1"
    by blast
  from post Greedy_out obtain probs strs where
    ds: "decode_strings (pp_embedding (RecognitionPostProcessor_init vocab)) ids = Inr strs"
    and out: "out = Preds1 strs probs"
    by (auto split: if_splits sum.splits)
  from decode_strings_Inr[OF ds] have strs: "strs = map ?g ids" by simp
  have "length s \<le> max_length d + 1 \<and> \<not> sublist eos_marker s" if "s \<in> set strs" for s
  proof -
    from that strs obtain r where r: "r \<in> set ids" and s: "s = ?g r" by auto
    from first_piece_length[of vocab r] rows r have "length (?g r) \<le> max_length d + 1" by fastforce
    with s first_piece_no_marker show ?thesis by simp
  qed
  with out show ?thesis by (simp add: all_predictions_def)
next
  case (Beam_out ids scores)
  let ?g = "\<lambda>r. hd (split_sep eos_marker (id_chars vocab r))"
  from dec Beam_out obtain symbol states where
    path: "select_path kw beam_width = Beam_path"
    and bd: "beam_decode search d symbol states feats (the beam_width) = Inr (ids, scores)"
    by (auto simp: SARDecoder_call_def Let_def split_def split: decode_path.splits sum.splits)
  from lib path have c: "beam_search_contract search" and k: "1 \<le> the beam_width" by auto
  from conjunct2[OF beam_decode_spec[OF k, of search d symbol states feats]] c bd
  have len: "length ids = length symbol"
    and rows: "\<forall>n<length symbol. \<forall>s\<in>set (ids ! n). length s \<le> max_length d + 1"
    by blast+
  have seqs: "length r \<le> max_length d + 1" if "r \<in> set (concat ids)" for r
  proof -
    from that obtain hyps where "hyps \<in> set ids" "r \<in> set hyps" by auto
    then obtain n where "n < length ids" "hyps = ids ! n" by (auto simp: in_set_conv_nth)
    with rows len \<open>r \<in> set hyps\<close> show ?thesis by auto
  qed
  define kk where "kk = the top_sequences"
  from post Beam_out obtain strs where
    ds: "decode_strings (pp_embedding (RecognitionPostProcessor_init vocab)) (concat ids) = Inr strs"
    and out: "predictions2 out = map (slice_to kk) (chop_rows (map length ids) strs)"
    and o2: "\<exists>p q. out = Preds2 p q"
    by (auto simp: Let_def kk_def split: if_splits sum.splits)
  from decode_strings_Inr[OF ds] have strs: "strs = map ?g (concat ids)" by simp
  have p2: "predictions2 out = map (\<lambda>row. slice_to kk (map ?g row)) ids"
    using out strs by (simp add: chop_rows_concat)
  have sub: "set (slice_to kk xs) \<subseteq> set xs" for xs :: "string list"
    by (auto simp: slice_to_def dest: in_set_takeD)
  have "length s \<le> max_length d + 1 \<and> \<not> sublist eos_marker s"
    if "s \<in> set (concat (predictions2 out))" for s
  proof -
    from that p2 obtain row where row: "row \<in> set ids" and "s \<in> set (slice_to kk (map ?g row))"
      by auto
    with sub obtain r where r: "r \<in> set row" and s: "s = ?g r" by fastforce
    from r row have "r \<in> set (concat ids)" by auto
    from seqs[OF this] first_piece_length[of vocab r] have "length (?g r) \<le> max_length d + 1"
      by simp
    with s first_piece_no_marker show ?thesis by simp
  qed
  with o2 show ?thesis by (auto simp: all_predictions_def)
qed

lemma example_post:
  "SARPostProcessor_call (RecognitionPostProcessor_init ''a'') (Greedy_out [[0, 0]] [[[0, 0], [0, 0]]]) None
     = Inr (Preds1 [''aa''] [exp ((ln (1 / 2) + ln (1 / 2)) / 2)])"
  by (simp add: RecognitionPostProcessor_init_def truthy_int_def decode_strings_def join_ids_def
      embedding_lookup_def eos_marker_def to_dense_def first_column_def seq_prob_def gather1_def
      softmax_def split_sep.simps)

text \<open>
  Claim C4 as stated fails: the bound \<open>max_length\<close> is exceeded by one when no step emits
  EOS. With all weights zero every step predicts id 0, so for \<open>max_length = 1\<close> and the
  vocabulary \<open>a\<close> the decoded string is \<open>aa\<close>.
\<close>

theorem decoded_string_longer_than_max_length:
  "SARDecoder_call example_search example_decoder [[[[0]]]] [[0]] None None None
     = Inr (Greedy_out [[0, 0]] [[[0, 0], [0, 0]]]) \<and>
   predictions1 (projr (SARPostProcessor_call (RecognitionPostProcessor_init ''a'')
                   (Greedy_out [[0, 0]] [[[0, 0], [0, 0]]]) None)) = [''aa''] \<and>
   \<not> isl (SARPostProcessor_call (RecognitionPostProcessor_init ''a'')
            (Greedy_out [[0, 0]] [[[0, 0], [0, 0]]]) None) \<and>
   max_length example_decoder = 1 \<and>
   \<not> length ''aa'' \<le> max_length example_decoder"
  unfolding example_post example_greedy by (simp add: example_decoder_fields)

lemma example_post_beam:
  "SARPostProcessor_call (RecognitionPostProcessor_init ''a'') (Beam_out [[[Suc 0], [Suc 0]]] [[0, 0]]) (Some 1)
     = Inr (Preds2 [['''']] [[1]])"
  by (simp add: RecognitionPostProcessor_init_def truthy_int_def decode_strings_def join_ids_def
      embedding_lookup_def eos_marker_def to_dense_def first_column_def slice_to_def
      split_sep.simps)

theorem decoded_strings_bounded_witness:
  "SARDecoder_call example_search example_decoder [[[[0]]]] [[0]] None None None
     = Inr (Greedy_out [[0, 0]] [[[0, 0], [0, 0]]]) \<and>
   SARPostProcessor_call (RecognitionPostProcessor_init ''a'') (Greedy_out [[0, 0]] [[[0, 0], [0, 0]]]) None
     = Inr (Preds1 [''aa''] [exp ((ln (1 / 2) + ln (1 / 2)) / 2)]) \<and>
   select_path None None \<noteq> Beam_path \<and>
   length ''aa'' \<le> max_length example_decoder + 1 \<and> \<not> sublist eos_marker ''aa'' \<and>
   SARDecoder_call example_search example_decoder [[[[0]]]] [[0]] None (Some 2) None
     = Inr (Beam_out [[[1], [1]]] [[0, 0]]) \<and>
   SARPostProcessor_call (RecognitionPostProcessor_init ''a'') (Beam_out [[[1], [1]]] [[0, 0]]) (Some 1)
     = Inr (Preds2 [['''']] [[1]]) \<and>
   select_path None (Some 2) = Beam_path \<and> beam_search_contract example_search \<and>
   (1::int) \<le> the (Some 2) \<and>
   length '''' \<le> max_length example_decoder + 1 \<and> \<not> sublist eos_marker ''''"
proof -
  have p: "select_path None None \<noteq> Beam_path" by (simp add: select_path_def)
  from decoded_strings_bounded[OF example_greedy[of example_search] example_post] p
  have g: "\<forall>s\<in>all_predictions (Preds1 [''aa''] [exp ((ln (1 / 2) + ln (1 / 2)) / 2)]).
          length s \<le> max_length example_decoder + 1 \<and> \<not> sublist eos_marker s"
    by blast
  have q: "select_path None (Some 2) = Beam_path" by (simp add: select_path_def training_flag_def)
  have k: "(1::int) \<le> the (Some 2)" by simp
  from decoded_strings_bounded[OF example_beam[of "[0]"] example_post_beam] example_search_contract k
  have b: "\<forall>s\<in>all_predictions (Preds2 [['''']] [[1]]).
          length s \<le> max_length example_decoder + 1 \<and> \<not> sublist eos_marker s"
    by blast
  have eb: "SARDecoder_call example_search example_decoder [[[[0]]]] [[0]] None (Some 2) None
     = Inr (Beam_out [[[1], [1]]] [[0, 0]])"
    using example_beam[of "[0]"] by simp
  have pb: "SARPostProcessor_call (RecognitionPostProcessor_init ''a'') (Beam_out [[[1], [1]]] [[0, 0]]) (Some 1)
     = Inr (Preds2 [['''']] [[1]])"
    using example_post_beam by simp
  from g b show ?thesis
    unfolding example_post example_greedy eb pb
    using p q k example_search_contract by (simp add: all_predictions_def)
qed

section \<open>Attention on an all-zero feature map\<close>

lemma dot_kernel_Nil: "dot_kernel [] k = 0"
  by (simp add: dot_kernel_def)

lemma pixel_zero_map:
  "dot_kernel (pixel (replicate H (replicate W (replicate D 0))) a b) k = 0"
proof (cases "0 \<le> a \<and> a < int H \<and> 0 \<le> b \<and> b < int W")
  case True
  then have "nat a < H" "nat b < W" by auto
  then have "pixel (replicate H (replicate W (replicate D 0))) a b = replicate D 0"
    using True by (simp add: pixel_def)
  then show ?thesis by (simp add: dot_kernel_zeros)
next
  case False
  then have "pixel (replicate H (replicate W (replicate D (0::real)))) a b = []"
    by (auto simp: pixel_def)
  then show ?thesis by (simp add: dot_kernel_Nil)
qed

lemma conv2d_at_zero_map:
  "conv2d_at c (replicate H (replicate W (replicate D 0))) h w =
     map (\<lambda>u. if c_use_bias c then c_bias c u else 0) [0..<c_filters c]"
  unfolding conv2d_at_def Let_def
  by (simp only: pixel_zero_map)
    (simp only: map_replicate_const sum_list_replicate mult_zero_right add_0_left sum_list_0
      cong: map_cong)

lemma conv2d_call_const_rows:
  assumes "\<And>h w. h < H \<Longrightarrow> w < W \<Longrightarrow> conv2d_at c (replicate H (replicate W p)) h w = q"
  shows "conv2d_call c (replicate H (replicate W p)) kw = replicate H (replicate W q)"
proof -
  let ?m = "replicate H (replicate W p)"
  have row: "map (\<lambda>w. conv2d_at c ?m h w) [0..<length (?m ! h)] = replicate W q"
    if "h < H" for h
  proof -
    have "map (\<lambda>w. conv2d_at c ?m h w) [0..<W] = map (\<lambda>w. q) [0..<W]"
      by (rule map_cong[OF refl]) (use that assms in simp)
    with that show ?thesis by (simp add: map_replicate_const)
  qed
  have "map (\<lambda>h. map (\<lambda>w. conv2d_at c ?m h w) [0..<length (?m ! h)]) [0..<H]
      = map (\<lambda>h. replicate W q) [0..<H]"
    by (rule map_cong[OF refl]) (use row in simp)
  then show ?thesis by (simp add: conv2d_call_def map_replicate_const)
qed

lemma conv2d_call_zero_map:
  "conv2d_call c (replicate H (replicate W (replicate D 0))) kw =
     replicate H (replicate W (map (\<lambda>u. if c_use_bias c then c_bias c u else 0) [0..<c_filters c]))"
  by (rule conv2d_call_const_rows) (rule conv2d_at_zero_map)

lemma conv2d_call_unit: "conv2d_call c [[h]] kw = [[conv2d_at c [[h]] 0 0]]"
  by (simp add: conv2d_call_def)

lemma bcast_single: "bcast f [x] (replicate n y) = replicate n (f x y)"
  by (cases "n = 1") (simp_all add: bcast_def)

lemma bcast_same_length: "length xs = length ys \<Longrightarrow> bcast f xs ys = map2 f xs ys"
  by (auto simp: bcast_def)

lemma map2_replicate: "map2 f (replicate n x) (replicate n y) = replicate n (f x y)"
  by (induction n) auto

lemma conv2d_at_pointwise:
  assumes "c_size c = 1" and "h < H" and "w < W"
  shows "conv2d_at c (replicate H (replicate W p)) h w =
           map (\<lambda>u. dot_kernel p (\<lambda>ch. c_kernel c 0 0 ch u) + (if c_use_bias c then c_bias c u else 0))
             [0..<c_filters c]"
  using assms by (simp add: conv2d_at_def pixel_def)

lemma concat_replicate_replicate: "concat (replicate n (replicate m x)) = replicate (n * m) x"
  by (induction n) (simp_all add: replicate_add)

lemma concat_replicate_single: "concat (replicate n [x]) = replicate n x"
  by (induction n) simp_all

lemma softmax_const:
  assumes "0 < n"
  shows "softmax (replicate n s) = replicate n (1 / real n)"
proof -
  have "sum_list (map exp (replicate n s)) = real n * exp s"
    by (simp add: sum_list_replicate)
  moreover have "exp s / (real n * exp s) = 1 / real n"
    using assms by simp
  ultimately show ?thesis by (simp add: softmax_def)
qed

lemma attention_weights_zero_map:
  assumes "0 < H" and "0 < W"
  shows "attention_weights (AttentionModule_init attention_units w)
           (replicate H (replicate W (replicate D 0))) [[h]] kw
         = replicate (H * W) (1 / real (H * W))"
proof -
  let ?am = "AttentionModule_init attention_units w"
  let ?ap = "attention_projector ?am"
  define hp where "hp = conv2d_at (hidden_state_projector ?am) [[h]] 0 0"
  have hp: "conv2d_call (hidden_state_projector ?am) [[h]] kw = [[hp]]"
    unfolding hp_def by (rule conv2d_call_unit)
  define fp where "fp = map (\<lambda>u. if c_use_bias (features_projector ?am)
      then c_bias (features_projector ?am) u else 0) [0..<c_filters (features_projector ?am)]"
  have fp: "conv2d_call (features_projector ?am)
      (replicate H (replicate W (replicate D 0))) kw = replicate H (replicate W fp)"
    unfolding fp_def by (rule conv2d_call_zero_map)
  have b: "bcast (bcast (bcast (+))) [[hp]] (replicate H (replicate W fp))
      = replicate H (replicate W (bcast (+) hp fp))"
    by (simp add: bcast_single)
  define p where "p = map tanh (bcast (+) hp fp)"
  have proj: "map (map (map tanh)) (replicate H (replicate W (bcast (+) hp fp)))
      = replicate H (replicate W p)"
    by (simp add: p_def)
  have size: "c_size ?ap = 1" "c_filters ?ap = 1" "\<not> c_use_bias ?ap"
    by (simp_all add: AttentionModule_init_def)
  define s where "s = dot_kernel p (\<lambda>ch. c_kernel ?ap 0 0 ch 0)"
  have att: "conv2d_call ?ap (replicate H (replicate W p)) kw = replicate H (replicate W [s])"
  proof (rule conv2d_call_const_rows)
    fix h' w' assume "h' < H" "w' < W"
    then show "conv2d_at ?ap (replicate H (replicate W p)) h' w' = [s]"
      using conv2d_at_pointwise[OF size(1), of h' H w' W p] size by (simp add: s_def)
  qed
  have flat: "concat (concat (replicate H (replicate W [s]))) = replicate (H * W) s"
    by (simp add: concat_replicate_replicate concat_replicate_single)
  have "attention_weights ?am (replicate H (replicate W (replicate D 0))) [[h]] kw
      = softmax (replicate (H * W) s)"
    unfolding attention_weights_def Let_def hp fp b proj att flat ..
  with assms show ?thesis by (simp add: softmax_const)
qed

lemma fmap_dims_const:
  assumes "0 < H" and "0 < W"
  shows "fmap_width (replicate H (replicate W v)) = W"
    and "fmap_depth (replicate H (replicate W v)) = length v"
proof -
  from assms obtain H' W' where "H = Suc H'" "W = Suc W'"
    by (metis Suc_pred)
  then show "fmap_width (replicate H (replicate W v)) = W"
    and "fmap_depth (replicate H (replicate W v)) = length v"
    by (simp_all add: fmap_width_def fmap_depth_def)
qed

lemma scale_zeros: "bcast (*) (replicate D (0::real)) [a] = replicate D 0"
  by (cases "D = 1") (simp_all add: bcast_def)

lemma attention_sample_zero_map:
  assumes "0 < H" and "0 < W"
  shows "attention_sample (AttentionModule_init attention_units w)
           (replicate H (replicate W (replicate D 0))) [[h]] kw = replicate D 0"
proof -
  let ?z = "replicate H (replicate W (replicate D (0::real)))"
  let ?a = "1 / real (H * W)"
  have amap: "map (\<lambda>h. map (\<lambda>w. [replicate (H * W) ?a ! (h * W + w)]) [0..<W]) [0..<H]
      = replicate H (replicate W [?a])"
  proof -
    have "h * W + w < H * W" if "h < H" "w < W" for h w
    proof -
      have "h * W + w < h * W + W" using that by simp
      also have "\<dots> = Suc h * W" by simp
      also have "\<dots> \<le> H * W" using that by (intro mult_le_mono1) simp
      finally show ?thesis .
    qed
    then show ?thesis by (simp add: list_eq_iff_nth_eq)
  qed
  have g: "bcast (bcast (bcast (*))) ?z (replicate H (replicate W [?a])) = ?z"
    by (simp add: bcast_same_length map2_replicate scale_zeros)
  have sum0: "map (\<lambda>d. \<Sum>v\<leftarrow>concat ?z. v ! d) [0..<D] = replicate D 0"
  proof -
    have "(\<Sum>v\<leftarrow>concat ?z. v ! d) = 0" if "d < D" for d
      using that by (simp add: concat_replicate_replicate sum_list_replicate)
    then show ?thesis by (simp add: list_eq_iff_nth_eq)
  qed
  show ?thesis
    unfolding attention_sample_def Let_def attention_weights_zero_map[OF assms]
      fmap_dims_const[OF assms] length_replicate amap g
    by (rule sum0)
qed

lemma mean_feature_vector_zero_map:
  assumes "0 < H" and "0 < W"
  shows "mean_feature_vector (replicate H (replicate W (replicate D 0))) = replicate D 0"
proof -
  have "(\<Sum>v\<leftarrow>concat (replicate H (replicate W (replicate D (0::real)))). v ! d) = 0" if "d < D" for d
    using that by (simp add: concat_replicate_replicate sum_list_replicate)
  then show ?thesis
    by (simp add: mean_feature_vector_def fmap_dims_const[OF assms] list_eq_iff_nth_eq)
qed

text \<open>
  Claim C10. For a single sample whose feature map \<open>[H, W, D]\<close> is entirely zero (with
  \<open>H\<close> and \<open>W\<close> positive) and any hidden state \<open>[1, 1, R]\<close>, the attention distribution of
  an \<open>AttentionModule\<close> is uniform over the \<open>H * W\<close> locations, and the glimpse returned is
  the mean feature vector, which is the zero vector.
\<close>

theorem attention_uniform_on_zero_features:
  assumes "0 < H" and "0 < W"
  shows "attention_weights (AttentionModule_init attention_units w)
           (replicate H (replicate W (replicate D 0))) [[h]] kw
           = replicate (H * W) (1 / real (H * W)) \<and>
         AttentionModule_call (AttentionModule_init attention_units w)
           [replicate H (replicate W (replicate D 0))] [[[h]]] kw
           = [mean_feature_vector (replicate H (replicate W (replicate D 0)))] \<and>
         mean_feature_vector (replicate H (replicate W (replicate D 0))) = replicate D 0"
  using attention_weights_zero_map[OF assms] attention_sample_zero_map[OF assms]
    mean_feature_vector_zero_map[OF assms]
  by (simp add: AttentionModule_call_def)

theorem attention_uniform_on_zero_features_witness:
  "(0::nat) < 2 \<and> (0::nat) < 3 \<and>
   attention_weights (AttentionModule_init 1 (w_attention (mw_decoder zero_weights)))
     (replicate 2 (replicate 3 (replicate 1 0))) [[[0]]] None = replicate (2 * 3) (1 / real (2 * 3 :: nat)) \<and>
   AttentionModule_call (AttentionModule_init 1 (w_attention (mw_decoder zero_weights)))
     [replicate 2 (replicate 3 (replicate 1 0))] [[[[0]]]] None = [[0]]"
proof -
  have h: "(0::nat) < 2" "(0::nat) < 3" by simp_all
  from attention_uniform_on_zero_features[OF h, of 1 "w_attention (mw_decoder zero_weights)" 1 "[0]" None]
  show ?thesis using h by simp
qed

section \<open>The masked loss\<close>


lemma masked_row_nth:
  assumes "length row = n" and "t < n"
  shows "map (\<lambda>(b, x). if b then x else 0) (zip (map (\<lambda>t. t < l) [0..<n]) row) ! t
           = (if t < l then row ! t else 0)"
  using assms by simp








end
